theory Spec2Isabelle
  imports Complex_Main "HOL-Library.Multiset"
begin

section \<open>Python values used by the engine\<close>

text \<open>
  A Python \<open>str\<close> is a sequence of Unicode code points; texts, literals and relation
  labels are lists of code points. Synset identifiers are plain ASCII keys and are kept
  as HOL strings. Floats are idealised as reals.
\<close>

type_synonym py_str = "nat list"

abbreviation str :: "string \<Rightarrow> py_str" where
  "str s \<equiv> map of_char s"

text \<open>
  \<open>str.lower()\<close>, one code point at a time, on Basic Latin, Latin-1 Supplement,
  Latin Extended-A and the Romanian comma-below letters (U+0218 to U+021B). Code points
  outside these blocks are left as they are: the texts considered here are drawn from
  these blocks.
\<close>

definition lower_cp :: "nat \<Rightarrow> nat list" where
  "lower_cp c =
     (if 65 \<le> c \<and> c \<le> 90 then [c + 32]
      else if (192 \<le> c \<and> c \<le> 214) \<or> (216 \<le> c \<and> c \<le> 222) then [c + 32]
      else if c = 304 then [105, 775]
      else if ((256 \<le> c \<and> c \<le> 303) \<or> (306 \<le> c \<and> c \<le> 311) \<or> (330 \<le> c \<and> c \<le> 375))
              \<and> even c then [c + 1]
      else if ((313 \<le> c \<and> c \<le> 328) \<or> (377 \<le> c \<and> c \<le> 382)) \<and> odd c then [c + 1]
      else if c = 376 then [255]
      else if c = 536 \<or> c = 538 then [c + 1]
      else [c])"

definition lower :: "py_str \<Rightarrow> py_str" where
  "lower s = concat (map lower_cp s)"

text \<open>Python's \<open>needle in haystack\<close> on strings: substring containment.\<close>

fun py_in :: "py_str \<Rightarrow> py_str \<Rightarrow> bool" where
  "py_in needle [] = (needle = [])"
| "py_in needle (c # cs) = (take (length needle) (c # cs) = needle \<or> py_in needle cs)"

text \<open>
  Python raises on division by zero and on the logarithm of a non-positive number.
  Both operations return the exception as a value.
\<close>

datatype py_error = ZeroDivisionError | ValueError

definition py_truediv :: "real \<Rightarrow> real \<Rightarrow> py_error + real" where
  "py_truediv a b = (if b = 0 then Inl ZeroDivisionError else Inr (a / b))"

definition py_log :: "real \<Rightarrow> py_error + real" where
  "py_log x = (if x \<le> 0 then Inl ValueError else Inr (ln x))"

section \<open>The taxonomy resource and the loader\<close>

text \<open>
  The part of speech of a library synset is an arbitrary Python value: a string, an
  integer, or another object of which only \<open>str()\<close> is observed.
\<close>

datatype py_value = PyStr py_str | PyInt int | PyObj py_str

record synset =
  syn_id :: string
  syn_pos :: py_value
  syn_literals :: "py_str list"
  syn_definition :: py_str

text \<open>
  The library object \<open>rwn\<close>: \<open>rwn.synsets()\<close> enumerates the synsets in the order of
  \<open>rwn_synsets\<close>, and \<open>rwn.outbound_relations(id)\<close> is the entry of \<open>id\<close> in
  \<open>rwn_relations\<close>, a list of (target, relation label) pairs. Both calls raise for
  an identifier without an entry; the loader catches this.
\<close>

record rowordnet =
  rwn_synsets :: "synset list"
  rwn_relations :: "(string \<times> (string \<times> py_str) list) list"

definition outbound_relations :: "rowordnet \<Rightarrow> string \<Rightarrow> (string \<times> py_str) list option" where
  "outbound_relations g synset_id = map_of (rwn_relations g) synset_id"

definition synset_cache :: "rowordnet \<Rightarrow> string \<rightharpoonup> synset" where
  "synset_cache g = fold (\<lambda>s cache. cache(syn_id s \<mapsto> s)) (rwn_synsets g) Map.empty"

definition synset_cache_len :: "rowordnet \<Rightarrow> nat" where
  "synset_cache_len g = length (remdups (map syn_id (rwn_synsets g)))"

definition index_literal :: "string \<Rightarrow> py_str \<Rightarrow> (py_str \<rightharpoonup> string list) \<Rightarrow> (py_str \<rightharpoonup> string list)" where
  "index_literal synset_id literal idx =
     (let word_lower = lower literal;
          idx' = (if idx word_lower = None then idx(word_lower \<mapsto> []) else idx)
      in idx'(word_lower \<mapsto> the (idx' word_lower) @ [synset_id]))"

definition word_to_synsets :: "rowordnet \<Rightarrow> py_str \<rightharpoonup> string list" where
  "word_to_synsets g =
     fold (\<lambda>s idx. fold (index_literal (syn_id s)) (syn_literals s) idx) (rwn_synsets g) Map.empty"

definition get_synsets_for_word :: "rowordnet \<Rightarrow> py_str \<Rightarrow> synset list" where
  "get_synsets_for_word g word =
     (let word_lower = lower word;
          synset_ids = (case word_to_synsets g word_lower of None \<Rightarrow> [] | Some ids \<Rightarrow> ids)
      in List.map_filter (synset_cache g) synset_ids)"

definition get_synset :: "rowordnet \<Rightarrow> string \<Rightarrow> synset option" where
  "get_synset g synset_id = synset_cache g synset_id"

definition get_synset_id :: "synset \<Rightarrow> string" where
  "get_synset_id s = syn_id s"

definition pos_map :: "py_value \<rightharpoonup> string" where
  "pos_map v =
     (case v of
        PyStr s \<Rightarrow>
          (if s = str ''n'' \<or> s = str ''0'' \<or> s = str ''NOUN'' then Some ''n''
           else if s = str ''v'' \<or> s = str ''1'' \<or> s = str ''VERB'' then Some ''v''
           else if s = str ''a'' \<or> s = str ''2'' \<or> s = str ''ADJ'' then Some ''a''
           else if s = str ''r'' \<or> s = str ''3'' \<or> s = str ''ADV'' then Some ''r''
           else None)
      | PyInt i \<Rightarrow>
          (if i = 0 then Some ''n'' else if i = 1 then Some ''v''
           else if i = 2 then Some ''a'' else if i = 3 then Some ''r'' else None)
      | PyObj _ \<Rightarrow> None)"

text \<open>\<open>str(pos)\<close>: a string is itself, an integer is written in decimal, and of any
  other object the text it prints as is what the model records.\<close>

fun decimal :: "nat \<Rightarrow> py_str" where
  "decimal n = (if n < 10 then [48 + n] else decimal (n div 10) @ [48 + n mod 10])"

declare decimal.simps [simp del]

definition py_str_of :: "py_value \<Rightarrow> py_value" where
  "py_str_of v =
     (case v of
        PyStr s \<Rightarrow> PyStr s
      | PyInt i \<Rightarrow> PyStr (if i < 0 then 45 # decimal (nat (- i)) else decimal (nat i))
      | PyObj s \<Rightarrow> PyStr s)"

definition get_synset_pos :: "synset \<Rightarrow> string" where
  "get_synset_pos s =
     (let pos = syn_pos s in
      case pos_map pos of
        Some p \<Rightarrow> p
      | None \<Rightarrow> (case pos_map (py_str_of pos) of Some p \<Rightarrow> p | None \<Rightarrow> ''n''))"

definition get_synset_literals :: "synset \<Rightarrow> py_str list" where
  "get_synset_literals s = syn_literals s"

definition get_synset_definition :: "synset \<Rightarrow> py_str" where
  "get_synset_definition s = syn_definition s"

definition get_hypernyms :: "rowordnet \<Rightarrow> string \<Rightarrow> string list" where
  "get_hypernyms g synset_id =
     (case outbound_relations g synset_id of
        None \<Rightarrow> []
      | Some relations \<Rightarrow>
          [target_id. (target_id, rel_type) \<leftarrow> relations, py_in (str ''hypernym'') (lower rel_type)])"

definition get_hyponyms :: "rowordnet \<Rightarrow> string \<Rightarrow> string list" where
  "get_hyponyms g synset_id =
     (case outbound_relations g synset_id of
        None \<Rightarrow> []
      | Some relations \<Rightarrow>
          [target_id. (target_id, rel_type) \<leftarrow> relations, py_in (str ''hyponym'') (lower rel_type)])"

definition get_definition :: "rowordnet \<Rightarrow> string \<Rightarrow> py_str" where
  "get_definition g synset_id =
     (case get_synset g synset_id of Some s \<Rightarrow> get_synset_definition s | None \<Rightarrow> [])"

definition get_related_synsets :: "rowordnet \<Rightarrow> string \<Rightarrow> string list" where
  "get_related_synsets g synset_id = get_hypernyms g synset_id @ get_hyponyms g synset_id"

definition get_max_depth :: "py_value \<Rightarrow> nat" where
  "get_max_depth pos =
     (if pos = PyStr (str ''n'') then 20
      else if pos = PyStr (str ''v'') then 15
      else if pos = PyStr (str ''a'') then 10
      else if pos = PyStr (str ''r'') then 10
      else 20)"

subsection \<open>Depth\<close>

text \<open>
  The breadth-first loop of \<open>get_depth\<close>: \<open>visited\<close> is the set of expanded nodes, the
  queue holds (node, depth) pairs. The loop returns at the first popped node without
  hypernyms and falls back to 1 when the queue runs empty.
\<close>

definition relation_keys :: "rowordnet \<Rightarrow> string set" where
  "relation_keys g = fst ` set (rwn_relations g)"

function get_depth_loop :: "rowordnet \<Rightarrow> string set \<Rightarrow> (string \<times> nat) list \<Rightarrow> nat" where
  "get_depth_loop g visited [] = 1"
| "get_depth_loop g visited ((current_id, depth) # queue) =
     (if current_id \<in> visited then get_depth_loop g visited queue
      else if get_hypernyms g current_id = [] then depth
      else get_depth_loop g (insert current_id visited)
             (queue @ [(hypernym_id, depth + 1). hypernym_id \<leftarrow> get_hypernyms g current_id,
                                              hypernym_id \<notin> insert current_id visited]))"
  by pat_completeness auto

lemma get_hypernyms_key:
  "get_hypernyms g s \<noteq> [] \<Longrightarrow> s \<in> relation_keys g"
  by (auto simp: get_hypernyms_def outbound_relations_def relation_keys_def
      split: option.splits dest: map_of_SomeD intro: rev_image_eqI)

lemma card_unvisited_less:
  "finite K \<Longrightarrow> c \<in> K \<Longrightarrow> c \<notin> V \<Longrightarrow> card (K - insert c V) < card (K - V)"
  by (rule psubset_card_mono) auto

termination get_depth_loop
proof (relation "inv_image (less_than <*lex*> less_than)
    (\<lambda>(g, visited, queue). (card (relation_keys g - visited), length queue))", goal_cases)
  case 1
  show ?case by (intro wf_inv_image wf_lex_prod wf_less_than)
next
  case (2 g visited current_id depth queue)
  then show ?case by simp
next
  case (3 g visited current_id depth queue)
  then have "current_id \<in> relation_keys g"
    by (simp add: get_hypernyms_key)
  with 3 have "card (relation_keys g - insert current_id visited) < card (relation_keys g - visited)"
    by (intro card_unvisited_less) (simp_all add: relation_keys_def)
  then show ?case by simp
qed

definition get_depth :: "rowordnet \<Rightarrow> string \<Rightarrow> nat" where
  "get_depth g synset_id = get_depth_loop g {} [(synset_id, 1)]"

subsection \<open>Depth is one plus the distance to the nearest root\<close>

text \<open>
  The hypernym edges as a relation, and \<open>root_at g s n\<close>: some node without hypernyms is
  \<open>n\<close> hypernym hops away from \<open>s\<close>. The loop invariant has four parts: every queue
  entry records a real path from the start, the queue is ordered by depth and spans at most
  two levels, every expanded node has hypernyms, all of them expanded or queued, and every
  node reachable from the start is expanded or lies behind some queue entry that is at
  least as close to the start as the path leading to it.
\<close>

definition hyper_rel :: "rowordnet \<Rightarrow> (string \<times> string) set" where
  "hyper_rel g = {(u, h). h \<in> set (get_hypernyms g u)}"

definition root_at :: "rowordnet \<Rightarrow> string \<Rightarrow> nat \<Rightarrow> bool" where
  "root_at g s n \<longleftrightarrow> (\<exists>r. (s, r) \<in> hyper_rel g ^^ n \<and> get_hypernyms g r = [])"

definition queue_reach :: "rowordnet \<Rightarrow> string \<Rightarrow> (string \<times> nat) list \<Rightarrow> bool" where
  "queue_reach g s q \<longleftrightarrow> (\<forall>(u, e) \<in> set q. 1 \<le> e \<and> (s, u) \<in> hyper_rel g ^^ (e - 1))"

definition queue_levels :: "(string \<times> nat) list \<Rightarrow> bool" where
  "queue_levels q \<longleftrightarrow> sorted (map snd q) \<and> (\<forall>(u, e) \<in> set q. e \<le> snd (hd q) + 1)"

definition visited_closed :: "rowordnet \<Rightarrow> string set \<Rightarrow> (string \<times> nat) list \<Rightarrow> bool" where
  "visited_closed g V q \<longleftrightarrow>
     (\<forall>u \<in> V. get_hypernyms g u \<noteq> [] \<and>
        (\<forall>h \<in> set (get_hypernyms g u). h \<in> V \<or> h \<in> fst ` set q))"

definition frontier_covers :: "rowordnet \<Rightarrow> string \<Rightarrow> string set \<Rightarrow> (string \<times> nat) list \<Rightarrow> bool" where
  "frontier_covers g s V q \<longleftrightarrow>
     (\<forall>w j. (s, w) \<in> hyper_rel g ^^ j \<longrightarrow>
        w \<in> V \<or> (\<exists>u e m. (u, e) \<in> set q \<and> (u, w) \<in> hyper_rel g ^^ m \<and> e + m \<le> j + 1))"

definition depth_inv :: "rowordnet \<Rightarrow> string \<Rightarrow> string set \<Rightarrow> (string \<times> nat) list \<Rightarrow> bool" where
  "depth_inv g s V q \<longleftrightarrow>
     queue_reach g s q \<and> queue_levels q \<and> visited_closed g V q \<and> frontier_covers g s V q"

definition new_entries :: "rowordnet \<Rightarrow> string set \<Rightarrow> string \<Rightarrow> nat \<Rightarrow> (string \<times> nat) list" where
  "new_entries g V c d =
     [(hypernym_id, d + 1). hypernym_id \<leftarrow> get_hypernyms g c, hypernym_id \<notin> insert c V]"

lemma set_new_entries:
  "set (new_entries g V c d) =
     {(h, d + 1) | h. h \<in> set (get_hypernyms g c) \<and> h \<notin> insert c V}"
  by (auto simp: new_entries_def)

lemma get_depth_loop_step:
  "get_depth_loop g V ((c, d) # q) =
     (if c \<in> V then get_depth_loop g V q
      else if get_hypernyms g c = [] then d
      else get_depth_loop g (insert c V) (q @ new_entries g V c d))"
  by (simp add: new_entries_def)

lemma depth_inv_init: "depth_inv g s {} [(s, 1)]"
proof -
  have "frontier_covers g s {} [(s, 1)]"
    unfolding frontier_covers_def
  proof (intro allI impI disjI2)
    fix w j assume "(s, w) \<in> hyper_rel g ^^ j"
    then have "(s, 1) \<in> set [(s, 1::nat)] \<and> (s, w) \<in> hyper_rel g ^^ j \<and> 1 + j \<le> j + 1"
      by simp
    then show "\<exists>u e m. (u, e) \<in> set [(s, 1)] \<and> (u, w) \<in> hyper_rel g ^^ m \<and> e + m \<le> j + 1"
      by blast
  qed
  then show ?thesis
    by (simp add: depth_inv_def queue_reach_def queue_levels_def visited_closed_def)
qed

lemma leave_visited:
  assumes "visited_closed g V q" "(u, w) \<in> hyper_rel g ^^ m" "u \<in> V" "w \<notin> V"
  shows "\<exists>u' e' m'. (u', e') \<in> set q \<and> u' \<notin> V \<and> (u', w) \<in> hyper_rel g ^^ m' \<and> m' < m"
  using assms(2-)
proof (induction m arbitrary: u)
  case 0
  then show ?case by auto
next
  case (Suc m)
  from Suc.prems(1) obtain h where h: "(u, h) \<in> hyper_rel g" "(h, w) \<in> hyper_rel g ^^ m"
    using relpow_Suc_D2[OF Suc.prems(1)] by blast
  show ?case
  proof (cases "h \<in> V")
    case True
    from Suc.IH[OF h(2) True Suc.prems(3)] show ?thesis
      by (meson less_Suc_eq)
  next
    case False
    with assms(1) Suc.prems(2) h(1) obtain e where "(h, e) \<in> set q"
      by (fastforce simp: visited_closed_def hyper_rel_def)
    with False h(2) show ?thesis by blast
  qed
qed

lemma queue_reach_pop: "queue_reach g s (x # q) \<Longrightarrow> queue_reach g s q"
  by (simp add: queue_reach_def)

lemma queue_reach_expand:
  assumes "queue_reach g s ((c, d) # q)"
  shows "queue_reach g s (q @ new_entries g V c d)"
proof -
  from assms have c: "1 \<le> d" "(s, c) \<in> hyper_rel g ^^ (d - 1)"
    by (auto simp: queue_reach_def)
  have "(s, h) \<in> hyper_rel g ^^ d" if "h \<in> set (get_hypernyms g c)" for h
  proof -
    from that have "(c, h) \<in> hyper_rel g" by (simp add: hyper_rel_def)
    with c(2) have "(s, h) \<in> hyper_rel g ^^ Suc (d - 1)" by (rule relpow_Suc_I)
    with c(1) show ?thesis by simp
  qed
  with assms show ?thesis
    by (auto simp: queue_reach_def set_new_entries)
qed

lemma queue_levels_pop: "queue_levels ((c, d) # q) \<Longrightarrow> queue_levels q"
  by (cases q) (auto simp: queue_levels_def)

lemma queue_levels_bounds:
  "queue_levels ((c, d) # q) \<Longrightarrow> (u, e) \<in> set q \<Longrightarrow> d \<le> e \<and> e \<le> d + 1"
  by (auto simp: queue_levels_def)

lemma sorted_const: "\<forall>x \<in> set xs. f x = (k::nat) \<Longrightarrow> sorted (map f xs)"
  by (induction xs) auto

lemma queue_levels_expand:
  assumes "queue_levels ((c, d) # q)"
  shows "queue_levels (q @ new_entries g V c d)"
proof -
  have b: "d \<le> e \<and> e \<le> d + 1" if "(u, e) \<in> set q" for u e
    using assms that by (rule queue_levels_bounds)
  have srt: "sorted (map snd q)" using assms by (simp add: queue_levels_def)
  have "sorted (map snd (q @ new_entries g V c d))"
  proof -
    have "sorted (map snd (new_entries g V c d))"
      by (rule sorted_const[where k = "d + 1"]) (auto simp: set_new_entries)
    moreover have "snd x \<le> snd y" if "x \<in> set q" "y \<in> set (new_entries g V c d)" for x y
      using that b[of "fst x" "snd x"] by (auto simp: set_new_entries)
    ultimately show ?thesis
      using srt by (simp add: sorted_append)
  qed
  moreover have "e \<le> snd (hd (q @ new_entries g V c d)) + 1"
    if "(u, e) \<in> set (q @ new_entries g V c d)" for u e
  proof -
    have all: "d \<le> snd x \<and> snd x \<le> d + 1" if "x \<in> set (q @ new_entries g V c d)" for x
      using that b[of "fst x" "snd x"] by (auto simp: set_new_entries)
    from that have "hd (q @ new_entries g V c d) \<in> set (q @ new_entries g V c d)"
      by (intro hd_in_set) auto
    then have "d \<le> snd (hd (q @ new_entries g V c d))"
      using all by blast
    moreover have "e \<le> d + 1" using all[OF that] by simp
    ultimately show ?thesis by simp
  qed
  ultimately show ?thesis by (auto simp: queue_levels_def)
qed


lemma visited_closed_pop:
  "visited_closed g V ((c, d) # q) \<Longrightarrow> c \<in> V \<Longrightarrow> visited_closed g V q"
  by (fastforce simp: visited_closed_def)

lemma visited_closed_expand:
  assumes "visited_closed g V ((c, d) # q)" "get_hypernyms g c \<noteq> []"
  shows "visited_closed g (insert c V) (q @ new_entries g V c d)"
  unfolding visited_closed_def
proof (intro ballI conjI)
  fix u assume "u \<in> insert c V"
  with assms show "get_hypernyms g u \<noteq> []"
    by (auto simp: visited_closed_def)
next
  fix u h assume u: "u \<in> insert c V" and h: "h \<in> set (get_hypernyms g u)"
  show "h \<in> insert c V \<or> h \<in> fst ` set (q @ new_entries g V c d)"
  proof (cases "u = c")
    case True
    with h show ?thesis by (force simp: image_iff set_new_entries)
  next
    case False
    with u assms(1) h have "h \<in> V \<or> h \<in> fst ` set ((c, d) # q)"
      by (simp add: visited_closed_def)
    then show ?thesis by auto
  qed
qed

lemma frontier_covers_step:
  assumes cov: "frontier_covers g s V ((c, d) # q)"
    and lev: "queue_levels ((c, d) # q)"
    and clo: "visited_closed g V' q'"
    and sub: "V \<subseteq> V'" "c \<in> V'"
    and keep: "set q \<subseteq> set q'"
    and bound: "\<And>u e. (u, e) \<in> set q' \<Longrightarrow> e \<le> d + 1"
  shows "frontier_covers g s V' q'"
  unfolding frontier_covers_def
proof (intro allI impI)
  fix w j assume reach: "(s, w) \<in> hyper_rel g ^^ j"
  show "w \<in> V' \<or> (\<exists>u e m. (u, e) \<in> set q' \<and> (u, w) \<in> hyper_rel g ^^ m \<and> e + m \<le> j + 1)"
  proof (cases "w \<in> V'")
    case True
    then show ?thesis by simp
  next
    case False
    with sub have "w \<notin> V" by auto
    with cov reach obtain u e m where
      ue: "(u, e) \<in> set ((c, d) # q)" and m: "(u, w) \<in> hyper_rel g ^^ m" "e + m \<le> j + 1"
      unfolding frontier_covers_def by blast
    have de: "d \<le> e"
      using ue queue_levels_bounds[OF lev] by auto
    show ?thesis
    proof (cases "u \<in> V'")
      case True
      from leave_visited[OF clo m(1) True False] obtain u' e' m' where
        x: "(u', e') \<in> set q'" "(u', w) \<in> hyper_rel g ^^ m'" "m' < m"
        by blast
      from bound[OF x(1)] de m(2) x(3) have "e' + m' \<le> j + 1" by simp
      with x show ?thesis by blast
    next
      case False
      with sub(2) have "u \<noteq> c" by auto
      with ue keep have "(u, e) \<in> set q'" by auto
      with m show ?thesis by blast
    qed
  qed
qed

lemma depth_inv_pop:
  assumes "depth_inv g s V ((c, d) # q)" "c \<in> V"
  shows "depth_inv g s V q"
proof -
  from assms have clo: "visited_closed g V q"
    by (intro visited_closed_pop[of g V c d q]) (simp_all add: depth_inv_def)
  have "frontier_covers g s V q"
  proof (rule frontier_covers_step)
    show "frontier_covers g s V ((c, d) # q)" "queue_levels ((c, d) # q)"
      using assms by (auto simp: depth_inv_def)
    show "e \<le> d + 1" if "(u, e) \<in> set q" for u e
      using assms(1) that queue_levels_bounds[of c d q u e] by (simp add: depth_inv_def)
  qed (use clo assms in auto)
  moreover from assms have "queue_reach g s q"
    by (intro queue_reach_pop[of g s "(c, d)" q]) (simp add: depth_inv_def)
  moreover from assms have "queue_levels q"
    by (intro queue_levels_pop[of c d q]) (simp add: depth_inv_def)
  ultimately show ?thesis using clo
    by (simp add: depth_inv_def)
qed

lemma depth_inv_expand:
  assumes "depth_inv g s V ((c, d) # q)" "get_hypernyms g c \<noteq> []"
  shows "depth_inv g s (insert c V) (q @ new_entries g V c d)"
proof -
  from assms have clo: "visited_closed g (insert c V) (q @ new_entries g V c d)"
    by (intro visited_closed_expand) (simp_all add: depth_inv_def)
  have "frontier_covers g s (insert c V) (q @ new_entries g V c d)"
  proof (rule frontier_covers_step)
    show "frontier_covers g s V ((c, d) # q)" "queue_levels ((c, d) # q)"
      using assms by (auto simp: depth_inv_def)
    show "e \<le> d + 1" if "(u, e) \<in> set (q @ new_entries g V c d)" for u e
    proof (cases "(u, e) \<in> set q")
      case True
      with assms(1) queue_levels_bounds[of c d q u e] show ?thesis
        by (simp add: depth_inv_def)
    next
      case False
      with that show ?thesis by (auto simp: set_new_entries)
    qed
  qed (use clo in auto)
  moreover from assms have "queue_reach g s (q @ new_entries g V c d)"
    by (intro queue_reach_expand) (simp add: depth_inv_def)
  moreover from assms have "queue_levels (q @ new_entries g V c d)"
    by (intro queue_levels_expand) (simp add: depth_inv_def)
  ultimately show ?thesis using clo
    by (simp add: depth_inv_def)
qed

lemma unvisited_root_in_queue:
  assumes "depth_inv g s V q" "root_at g s n"
  shows "\<exists>u e. (u, e) \<in> set q \<and> e \<le> n + 1"
proof -
  from assms(2) obtain r where r: "(s, r) \<in> hyper_rel g ^^ n" "get_hypernyms g r = []"
    by (auto simp: root_at_def)
  from assms(1) r(2) have "r \<notin> V"
    by (auto simp: depth_inv_def visited_closed_def)
  moreover from assms(1) have "frontier_covers g s V q"
    by (simp add: depth_inv_def)
  ultimately obtain u e m where "(u, e) \<in> set q" "(u, r) \<in> hyper_rel g ^^ m" "e + m \<le> n + 1"
    using r(1) unfolding frontier_covers_def by blast
  then have "(u, e) \<in> set q \<and> e \<le> n + 1" by simp
  then show ?thesis by blast
qed

definition depth_spec :: "rowordnet \<Rightarrow> string \<Rightarrow> nat \<Rightarrow> bool" where
  "depth_spec g s d \<longleftrightarrow>
     (if \<exists>n. root_at g s n
      then root_at g s (d - 1) \<and> 1 \<le> d \<and> (\<forall>n. root_at g s n \<longrightarrow> d \<le> n + 1)
      else d = 1)"

lemma get_depth_loop_correct:
  assumes "depth_inv g s V q"
  shows "depth_spec g s (get_depth_loop g V q)"
  using assms
proof (induction g V q rule: get_depth_loop.induct)
  case (1 g visited)
  have "\<not> root_at g s n" for n
    using unvisited_root_in_queue[OF "1.prems", of n] by auto
  then show ?case
    by (simp add: depth_spec_def)
next
  case (2 g visited current_id depth queue)
  show ?case
  proof (cases "current_id \<in> visited")
    case True
    then have "get_depth_loop g visited ((current_id, depth) # queue) = get_depth_loop g visited queue"
      by (subst get_depth_loop_step) simp
    moreover have "depth_spec g s (get_depth_loop g visited queue)"
      using True depth_inv_pop[OF "2.prems" True] by (rule "2.IH"(1))
    ultimately show ?thesis by (simp only:)
  next
    case unvisited: False
    show ?thesis
    proof (cases "get_hypernyms g current_id = []")
      case True
      then have eq: "get_depth_loop g visited ((current_id, depth) # queue) = depth"
        using unvisited by (subst get_depth_loop_step) simp
      from "2.prems" have reach: "1 \<le> depth" "(s, current_id) \<in> hyper_rel g ^^ (depth - 1)"
        by (auto simp: depth_inv_def queue_reach_def)
      with True have here: "root_at g s (depth - 1)"
        by (auto simp: root_at_def)
      have least: "depth \<le> n + 1" if "root_at g s n" for n
      proof -
        from unvisited_root_in_queue[OF "2.prems" that] obtain u e where
          ue: "(u, e) \<in> set ((current_id, depth) # queue)" "e \<le> n + 1" by blast
        from "2.prems" have "queue_levels ((current_id, depth) # queue)"
          by (simp add: depth_inv_def)
        from queue_levels_bounds[OF this] ue(1) have "depth \<le> e"
          by auto
        with ue(2) show ?thesis by simp
      qed
      from here reach(1) least show ?thesis
        unfolding eq depth_spec_def by auto
    next
      case False
      then have "get_depth_loop g visited ((current_id, depth) # queue) =
          get_depth_loop g (insert current_id visited) (queue @ new_entries g visited current_id depth)"
        using unvisited by (subst get_depth_loop_step) simp
      moreover have "depth_spec g s
          (get_depth_loop g (insert current_id visited) (queue @ new_entries g visited current_id depth))"
        using unvisited False depth_inv_expand[OF "2.prems" False]
        unfolding new_entries_def by (rule "2.IH"(2))
      ultimately show ?thesis by (simp only:)
    qed
  qed
qed

lemma get_depth_spec: "depth_spec g s (get_depth g s)"
  unfolding get_depth_def by (rule get_depth_loop_correct[OF depth_inv_init])

text \<open>
  \<open>get_depth\<close> above is the body run on a cache miss. The method itself first consults
  \<open>_depth_cache\<close> and stores what it computes; a cache is sound when every entry is the
  value the loop computes for its key. The empty cache of a fresh loader is sound and
  every call keeps it sound, so callers see the value of \<open>get_depth\<close>. The caches of
  the descendant counts and of the information content work the same way.
\<close>

definition get_depth_cached :: "rowordnet \<Rightarrow> (string \<rightharpoonup> nat) \<Rightarrow> string \<Rightarrow> nat \<times> (string \<rightharpoonup> nat)" where
  "get_depth_cached g depth_cache synset_id =
     (case depth_cache synset_id of
        Some d \<Rightarrow> (d, depth_cache)
      | None \<Rightarrow> (let d = get_depth g synset_id in (d, depth_cache(synset_id \<mapsto> d))))"

definition depth_cache_ok :: "rowordnet \<Rightarrow> (string \<rightharpoonup> nat) \<Rightarrow> bool" where
  "depth_cache_ok g depth_cache \<longleftrightarrow> (\<forall>s d. depth_cache s = Some d \<longrightarrow> d = get_depth g s)"

lemma depth_cache_ok_empty: "depth_cache_ok g Map.empty"
  by (simp add: depth_cache_ok_def)

lemma get_depth_cached_value:
  "depth_cache_ok g c \<Longrightarrow> fst (get_depth_cached g c s) = get_depth g s"
  by (auto simp: get_depth_cached_def depth_cache_ok_def Let_def split: option.splits)

lemma get_depth_cached_ok:
  "depth_cache_ok g c \<Longrightarrow> depth_cache_ok g (snd (get_depth_cached g c s))"
  by (auto simp: get_depth_cached_def depth_cache_ok_def Let_def split: option.splits)

lemma get_depth_least:
  assumes "\<exists>n. root_at g s n"
  shows "get_depth g s = 1 + (LEAST n. root_at g s n)"
proof -
  from get_depth_spec[of g s] assms have
    d: "root_at g s (get_depth g s - 1)" "1 \<le> get_depth g s"
      "\<And>n. root_at g s n \<Longrightarrow> get_depth g s \<le> n + 1"
    by (auto simp: depth_spec_def)
  have "(LEAST n. root_at g s n) = get_depth g s - 1"
  proof (rule Least_equality)
    show "root_at g s (get_depth g s - 1)" by (rule d(1))
    show "get_depth g s - 1 \<le> n" if "root_at g s n" for n
      using d(3)[OF that] by simp
  qed
  with d(2) show ?thesis by simp
qed

lemma get_depth_no_root: "\<not> (\<exists>n. root_at g s n) \<Longrightarrow> get_depth g s = 1"
  using get_depth_spec[of g s] by (simp add: depth_spec_def)

lemma get_depth_ge1: "1 \<le> get_depth g s"
  by (cases "\<exists>n. root_at g s n") (simp_all add: get_depth_least get_depth_no_root)

lemma get_depth_root: "get_hypernyms g s = [] \<Longrightarrow> get_depth g s = 1"
  by (simp add: get_depth_def)

text \<open>
  Claim C7. For every synset, the depth returned under a sound cache is at least 1; a
  synset without hypernyms has depth exactly 1; when a root can be reached over hypernym
  edges the depth is one plus the least number of hops to a root; and when no root can be
  reached (a cycle) the depth is the default 1.
\<close>

theorem depth_is_shortest_root_distance:
  "depth_cache_ok g depth_cache \<Longrightarrow>
   1 \<le> fst (get_depth_cached g depth_cache s) \<and>
   (get_hypernyms g s = [] \<longrightarrow> fst (get_depth_cached g depth_cache s) = 1) \<and>
   ((\<exists>n. root_at g s n) \<longrightarrow>
      fst (get_depth_cached g depth_cache s) = 1 + (LEAST n. root_at g s n)) \<and>
   (\<not> (\<exists>n. root_at g s n) \<longrightarrow> fst (get_depth_cached g depth_cache s) = 1)"
  using get_depth_ge1[of g s]
  by (simp add: get_depth_cached_value get_depth_root get_depth_least get_depth_no_root)

definition depth_example :: rowordnet where
  "depth_example =
     \<lparr>rwn_synsets = [],
      rwn_relations =
        [(''R'', [(''A'', str ''hyponym'')]),
         (''A'', [(''R'', str ''hypernym''), (''A1'', str ''hyponym'')]),
         (''A1'', [(''A'', str ''hypernym'')]),
         (''C1'', [(''C2'', str ''hypernym'')]),
         (''C2'', [(''C1'', str ''hypernym'')])]\<rparr>"

lemma depth_example_hypernyms:
  "get_hypernyms depth_example ''R'' = []"
  "get_hypernyms depth_example ''A'' = [''R'']"
  "get_hypernyms depth_example ''A1'' = [''A'']"
  "get_hypernyms depth_example ''C1'' = [''C2'']"
  "get_hypernyms depth_example ''C2'' = [''C1'']"
  by code_simp+

lemma depth_example_cycle:
  "(''C1'', w) \<in> hyper_rel depth_example ^^ n \<Longrightarrow> w = ''C1'' \<or> w = ''C2''"
proof (induction n arbitrary: w)
  case 0
  then show ?case by simp
next
  case (Suc n)
  then obtain y where "(''C1'', y) \<in> hyper_rel depth_example ^^ n" "(y, w) \<in> hyper_rel depth_example"
    by auto
  with Suc.IH[of y] show ?case
    by (auto simp: hyper_rel_def depth_example_hypernyms)
qed

theorem depth_is_shortest_root_distance_witness:
  "depth_cache_ok depth_example Map.empty \<and>
   get_hypernyms depth_example ''R'' = [] \<and>
   fst (get_depth_cached depth_example Map.empty ''R'') = 1 \<and>
   (\<exists>n. root_at depth_example ''A1'' n) \<and>
   fst (get_depth_cached depth_example Map.empty ''A1'') = 1 + (LEAST n. root_at depth_example ''A1'' n) \<and>
   fst (get_depth_cached depth_example Map.empty ''A1'') = 3 \<and>
   \<not> (\<exists>n. root_at depth_example ''C1'' n) \<and>
   fst (get_depth_cached depth_example Map.empty ''C1'') = 1"
proof -
  have ok: "depth_cache_ok depth_example Map.empty"
    by (simp add: depth_cache_ok_def)
  have "(''A1'', ''R'') \<in> hyper_rel depth_example ^^ 2"
    by (auto simp: numeral_2_eq_2 hyper_rel_def depth_example_hypernyms relcomp_unfold)
  then have a1: "\<exists>n. root_at depth_example ''A1'' n"
    unfolding root_at_def using depth_example_hypernyms(1) by blast
  have c1: "\<not> (\<exists>n. root_at depth_example ''C1'' n)"
    unfolding root_at_def using depth_example_cycle depth_example_hypernyms(4,5) by fastforce
  have three: "fst (get_depth_cached depth_example Map.empty ''A1'') = 3"
    by code_simp
  from depth_is_shortest_root_distance[OF ok, of "''R''"]
    depth_is_shortest_root_distance[OF ok, of "''A1''"]
    depth_is_shortest_root_distance[OF ok, of "''C1''"]
    ok a1 c1 three depth_example_hypernyms(1)
  show ?thesis by simp
qed

subsection \<open>Descendant counts and information content\<close>

function count_descendants_loop :: "rowordnet \<Rightarrow> string set \<Rightarrow> string list \<Rightarrow> nat \<Rightarrow> nat" where
  "count_descendants_loop g visited [] n = n"
| "count_descendants_loop g visited (current # queue) n =
     (if current \<in> visited then count_descendants_loop g visited queue n
      else count_descendants_loop g (insert current visited)
             (queue @ [hyponym. hyponym \<leftarrow> get_hyponyms g current, hyponym \<notin> insert current visited])
             (n + 1))"
  by pat_completeness auto

lemma get_hyponyms_key:
  "get_hyponyms g s \<noteq> [] \<Longrightarrow> s \<in> relation_keys g"
  by (auto simp: get_hyponyms_def outbound_relations_def relation_keys_def
      split: option.splits dest: map_of_SomeD intro: rev_image_eqI)

termination count_descendants_loop
proof (relation "inv_image (less_than <*lex*> less_than)
    (\<lambda>(g, visited, queue, n). (card (relation_keys g - visited), length queue))", goal_cases)
  case 1
  show ?case by (intro wf_inv_image wf_lex_prod wf_less_than)
next
  case (2 g visited current queue n)
  then show ?case by simp
next
  case (3 g visited current queue n)
  show ?case
  proof (cases "get_hyponyms g current = []")
    case True
    have "card (relation_keys g - insert current visited) \<le> card (relation_keys g - visited)"
      by (rule card_mono) (auto simp: relation_keys_def)
    with True show ?thesis
      by (auto simp: le_less)
  next
    case False
    then have "current \<in> relation_keys g"
      by (rule get_hyponyms_key)
    with 3 have "card (relation_keys g - insert current visited) < card (relation_keys g - visited)"
      by (intro card_unvisited_less) (simp_all add: relation_keys_def)
    then show ?thesis by simp
  qed
qed

definition count_descendants :: "rowordnet \<Rightarrow> string \<Rightarrow> nat" where
  "count_descendants g synset_id = count_descendants_loop g {} [synset_id] 0"

definition get_information_content :: "rowordnet \<Rightarrow> string \<Rightarrow> py_error + real" where
  "get_information_content g synset_id =
     (let cnt = count_descendants g synset_id;
          total = synset_cache_len g + 1
      in case py_truediv (real cnt) (real total) of
           Inl e \<Rightarrow> Inl e
         | Inr prob \<Rightarrow>
             (if prob > 0
              then (case py_log prob of Inl e \<Rightarrow> Inl e | Inr l \<Rightarrow> Inr (- l))
              else Inr 0))"


subsection \<open>Ancestors and the least common subsumer\<close>

definition relation_targets :: "rowordnet \<Rightarrow> string set" where
  "relation_targets g = (\<Union>(k, rels) \<in> set (rwn_relations g). fst ` set rels)"

lemma finite_relation_targets: "finite (relation_targets g)"
  by (auto simp: relation_targets_def)

lemma outbound_relations_targets:
  "outbound_relations g s = Some rels \<Longrightarrow> fst ` set rels \<subseteq> relation_targets g"
  unfolding outbound_relations_def relation_targets_def
  by (drule map_of_SomeD) blast

lemma get_hypernyms_targets: "set (get_hypernyms g s) \<subseteq> relation_targets g"
proof (cases "outbound_relations g s")
  case None
  then show ?thesis by (simp add: get_hypernyms_def)
next
  case (Some rels)
  from outbound_relations_targets[OF this] Some show ?thesis
    by (auto simp: get_hypernyms_def image_subset_iff)
qed

lemma get_hyponyms_targets: "set (get_hyponyms g s) \<subseteq> relation_targets g"
proof (cases "outbound_relations g s")
  case None
  then show ?thesis by (simp add: get_hyponyms_def)
next
  case (Some rels)
  from outbound_relations_targets[OF this] Some show ?thesis
    by (auto simp: get_hyponyms_def image_subset_iff)
qed

text \<open>
  A Python set is kept as the list of its elements in insertion order. The inner loop of
  \<open>_get_all_ancestors\<close> adds each hypernym that is new to both the set and the queue.
\<close>

fun add_ancestors :: "string list \<Rightarrow> string list \<times> string list \<Rightarrow> string list \<times> string list" where
  "add_ancestors [] (ancestors, queue) = (ancestors, queue)"
| "add_ancestors (hypernym # rest) (ancestors, queue) =
     (if hypernym \<notin> set ancestors
      then add_ancestors rest (ancestors @ [hypernym], queue @ [hypernym])
      else add_ancestors rest (ancestors, queue))"

lemma add_ancestors_measure:
  assumes "set hs \<subseteq> T" "finite T" "add_ancestors hs (a, q) = (a', q')"
  shows "(a' = a \<and> q' = q) \<or> card (T - set a') < card (T - set a)"
  using assms
proof (induction hs arbitrary: a q)
  case Nil
  then show ?case by simp
next
  case (Cons h hs)
  show ?case
  proof (cases "h \<in> set a")
    case True
    with Cons show ?thesis by simp
  next
    case False
    with Cons.prems have rec: "add_ancestors hs (a @ [h], q @ [h]) = (a', q')" and "h \<in> T"
      by simp_all
    then have less: "card (T - set (a @ [h])) < card (T - set a)"
      using card_unvisited_less[OF Cons.prems(2), of h "set a"] False by (simp del: card_Diff_insert)
    from Cons.IH[OF _ Cons.prems(2) rec] Cons.prems(1)
    have "(a' = a @ [h] \<and> q' = q @ [h]) \<or> card (T - set a') < card (T - set (a @ [h]))"
      by simp
    with less show ?thesis by auto
  qed
qed

function get_all_ancestors_loop :: "rowordnet \<Rightarrow> string list \<Rightarrow> string list \<Rightarrow> string list" where
  "get_all_ancestors_loop g ancestors [] = ancestors"
| "get_all_ancestors_loop g ancestors (current # queue) =
     (case add_ancestors (get_hypernyms g current) (ancestors, queue) of
        (ancestors', queue') \<Rightarrow> get_all_ancestors_loop g ancestors' queue')"
  by pat_completeness auto

termination get_all_ancestors_loop
proof (relation "inv_image (less_than <*lex*> less_than)
    (\<lambda>(g, ancestors, queue). (card (relation_targets g - set ancestors), length queue))", goal_cases)
  case 1
  show ?case by (intro wf_inv_image wf_lex_prod wf_less_than)
next
  case (2 g ancestors current queue x y)
  then have eq: "add_ancestors (get_hypernyms g current) (ancestors, queue) = (x, y)"
    by simp
  from add_ancestors_measure[OF get_hypernyms_targets finite_relation_targets eq]
  show ?case by (auto simp: eq)
qed

definition get_all_ancestors :: "rowordnet \<Rightarrow> string \<Rightarrow> string list" where
  "get_all_ancestors g synset_id = get_all_ancestors_loop g [] [synset_id]"

definition py_set_add :: "string \<Rightarrow> string list \<Rightarrow> string list" where
  "py_set_add x xs = (if x \<in> set xs then xs else xs @ [x])"

text \<open>
  Python does not fix the order in which \<open>for ancestor_id in common\<close> enumerates a set.
  The enumeration follows a ranking \<open>rank\<close> of the identifiers (the slot of an element in
  the hash table); elements of equal rank keep the order in which they were inserted.
  Every enumeration order arises from some ranking.
\<close>

definition flat_rank :: "string \<Rightarrow> nat" where
  "flat_rank synset_id = 0"

definition py_intersection_iter :: "(string \<Rightarrow> nat) \<Rightarrow> string list \<Rightarrow> string list \<Rightarrow> string list" where
  "py_intersection_iter rank xs ys = sort_key rank [x \<leftarrow> xs. x \<in> set ys]"

definition deepest_step :: "rowordnet \<Rightarrow> string \<Rightarrow> string option \<times> int \<Rightarrow> string option \<times> int" where
  "deepest_step g ancestor_id st =
     (case st of (deepest, max_depth) \<Rightarrow>
        (let depth = int (get_depth g ancestor_id)
         in if depth > max_depth then (Some ancestor_id, depth) else (deepest, max_depth)))"

definition find_lcs :: "(string \<Rightarrow> nat) \<Rightarrow> rowordnet \<Rightarrow> string \<Rightarrow> string \<Rightarrow> string option" where
  "find_lcs rank g synset1_id synset2_id =
     (if synset1_id = synset2_id then Some synset1_id
      else
        let ancestors1 = py_set_add synset1_id (get_all_ancestors g synset1_id);
            ancestors2 = py_set_add synset2_id (get_all_ancestors g synset2_id);
            common = py_intersection_iter rank ancestors1 ancestors2
        in if common = [] then None
           else fst (fold (deepest_step g) common (None, - 1)))"

subsection \<open>Shortest path length\<close>

datatype ('r, 's) flow = Return 'r | Continue 's

fun expand_side ::
  "(string \<rightharpoonup> int) \<Rightarrow> int \<Rightarrow> string list \<Rightarrow> (string \<rightharpoonup> int) \<times> (string \<times> int) list \<Rightarrow>
   (int, (string \<rightharpoonup> int) \<times> (string \<times> int) list) flow" where
  "expand_side other dst [] (visited, queue) = Continue (visited, queue)"
| "expand_side other dst (neighbor # rest) (visited, queue) =
     (if visited neighbor = None
      then (case other neighbor of
              Some d \<Rightarrow> Return (dst + 1 + d)
            | None \<Rightarrow> expand_side other dst rest
                        (visited(neighbor \<mapsto> dst + 1), queue @ [(neighbor, dst + 1)]))
      else expand_side other dst rest (visited, queue))"

definition step_side ::
  "rowordnet \<Rightarrow> (string \<rightharpoonup> int) \<Rightarrow> (string \<rightharpoonup> int) \<Rightarrow> (string \<times> int) list \<Rightarrow>
   (int, (string \<rightharpoonup> int) \<times> (string \<times> int) list) flow" where
  "step_side g visited other queue =
     (case queue of
        [] \<Rightarrow> Continue (visited, queue)
      | (current, dst) # rest \<Rightarrow>
          (case other current of
             Some d \<Rightarrow> Return (dst + d)
           | None \<Rightarrow> expand_side other dst
                       (get_hypernyms g current @ get_hyponyms g current) (visited, rest)))"

definition side_measure :: "rowordnet \<Rightarrow> (string \<rightharpoonup> int) \<Rightarrow> (string \<times> int) list \<Rightarrow> nat" where
  "side_measure g visited queue = card (relation_targets g - dom visited) + length queue"

lemma expand_side_measure:
  assumes "set ns \<subseteq> T" "finite T" "expand_side other dst ns (v, q) = Continue (v', q')"
  shows "card (T - dom v') + length q' = card (T - dom v) + length q"
  using assms
proof (induction ns arbitrary: v q)
  case Nil
  then show ?case by simp
next
  case (Cons n ns)
  show ?case
  proof (cases "v n = None")
    case False
    with Cons show ?thesis by simp
  next
    case True
    with Cons.prems(3) have rec:
      "expand_side other dst ns (v(n \<mapsto> dst + 1), q @ [(n, dst + 1)]) = Continue (v', q')"
      by (simp split: option.splits)
    from Cons.prems(1) have "n \<in> T" by simp
    moreover from True have "n \<notin> dom v" by (simp add: domIff)
    ultimately have "card (T - insert n (dom v)) < card (T - dom v)"
      using Cons.prems(2) by (intro card_unvisited_less)
    moreover have "card (T - dom v) \<le> Suc (card (T - insert n (dom v)))"
    proof -
      have "T - dom v \<subseteq> insert n (T - insert n (dom v))" by auto
      then have "card (T - dom v) \<le> card (insert n (T - insert n (dom v)))"
        using Cons.prems(2) by (intro card_mono) auto
      also have "\<dots> \<le> Suc (card (T - insert n (dom v)))"
        by (rule card_insert_le_m1[THEN le_trans]) auto
      finally show ?thesis .
    qed
    ultimately have "card (T - insert n (dom v)) + length (q @ [(n, dst + 1)]) =
        card (T - dom v) + length q"
      by simp
    moreover have "dom (v(n \<mapsto> dst + 1)) = insert n (dom v)"
      by simp
    ultimately have step: "card (T - dom (v(n \<mapsto> dst + 1))) + length (q @ [(n, dst + 1)]) =
        card (T - dom v) + length q"
      by (simp only:)
    from Cons.prems(1) have "set ns \<subseteq> T" by simp
    from Cons.IH[OF this Cons.prems(2) rec] step show ?thesis
      by (simp only:)
  qed
qed

lemma step_side_measure:
  assumes "step_side g v other q = Continue (v', q')"
  shows "side_measure g v' q' \<le> side_measure g v q \<and> (q \<noteq> [] \<longrightarrow> side_measure g v' q' < side_measure g v q)"
proof (cases q)
  case Nil
  with assms show ?thesis by (simp add: step_side_def)
next
  case (Cons x rest)
  obtain current dst where x: "x = (current, dst)" by (cases x)
  from assms Cons x have
    "expand_side other dst (get_hypernyms g current @ get_hyponyms g current) (v, rest) = Continue (v', q')"
    by (simp add: step_side_def split: option.splits)
  from expand_side_measure[OF _ finite_relation_targets this]
  have "card (relation_targets g - dom v') + length q' = card (relation_targets g - dom v) + length rest"
    using get_hypernyms_targets[of g current] get_hyponyms_targets[of g current] by simp
  with Cons show ?thesis by (simp add: side_measure_def)
qed

function find_shortest_path_loop ::
  "rowordnet \<Rightarrow> (string \<rightharpoonup> int) \<Rightarrow> (string \<times> int) list \<Rightarrow> (string \<rightharpoonup> int) \<Rightarrow> (string \<times> int) list \<Rightarrow> int" where
  "find_shortest_path_loop g visited1 queue1 visited2 queue2 =
     (if queue1 = [] \<and> queue2 = [] then - 1
      else case step_side g visited1 visited2 queue1 of
             Return r \<Rightarrow> r
           | Continue (visited1', queue1') \<Rightarrow>
               (case step_side g visited2 visited1' queue2 of
                  Return r \<Rightarrow> r
                | Continue (visited2', queue2') \<Rightarrow>
                    find_shortest_path_loop g visited1' queue1' visited2' queue2'))"
  by pat_completeness auto

termination find_shortest_path_loop
proof (relation "measure (\<lambda>(g, visited1, queue1, visited2, queue2).
    side_measure g visited1 queue1 + side_measure g visited2 queue2)", goal_cases)
  case 1
  show ?case by simp
next
  case (2 g visited1 queue1 visited2 queue2 x2 x y x2a xa ya)
  from step_side_measure[of g visited1 visited2 queue1 x y]
    step_side_measure[of g visited2 x queue2 xa ya] 2
  show ?case by auto
qed

definition find_shortest_path_length :: "rowordnet \<Rightarrow> string \<Rightarrow> string \<Rightarrow> int" where
  "find_shortest_path_length g synset1_id synset2_id =
     (if synset1_id = synset2_id then 0
      else find_shortest_path_loop g
             [synset1_id \<mapsto> 0] [(synset1_id, 0)] [synset2_id \<mapsto> 0] [(synset2_id, 0)])"

section \<open>The similarity measures\<close>

definition py_bind :: "py_error + 'a \<Rightarrow> ('a \<Rightarrow> py_error + 'b) \<Rightarrow> py_error + 'b" where
  "py_bind m f = (case m of Inl e \<Rightarrow> Inl e | Inr v \<Rightarrow> f v)"

definition path_similarity :: "rowordnet \<Rightarrow> string \<Rightarrow> string \<Rightarrow> py_error + real" where
  "path_similarity g synset1_id synset2_id =
     (if synset1_id = synset2_id then Inr 1
      else
        let path_length = find_shortest_path_length g synset1_id synset2_id
        in if path_length \<le> 0 then Inr 0
           else py_truediv 1 (real_of_int (path_length + 1)))"

definition wup_similarity :: "(string \<Rightarrow> nat) \<Rightarrow> rowordnet \<Rightarrow> string \<Rightarrow> string \<Rightarrow> py_error + real" where
  "wup_similarity rank g synset1_id synset2_id =
     (if synset1_id = synset2_id then Inr 1
      else
        case find_lcs rank g synset1_id synset2_id of
          None \<Rightarrow> Inr 0
        | Some lcs_id \<Rightarrow>
            (let depth_lcs = get_depth g lcs_id;
                 depth_s1 = get_depth g synset1_id;
                 depth_s2 = get_depth g synset2_id;
                 denominator = depth_s1 + depth_s2
             in if denominator = 0 then Inr 0
                else py_truediv (2 * real depth_lcs) (real denominator)))"

definition lch_max_depth :: "rowordnet \<Rightarrow> string \<Rightarrow> nat" where
  "lch_max_depth g synset_id =
     (let pos = (case get_synset g synset_id of Some s \<Rightarrow> syn_pos s | None \<Rightarrow> PyStr (str ''n''))
      in get_max_depth pos)"

definition lch_similarity :: "rowordnet \<Rightarrow> string \<Rightarrow> string \<Rightarrow> py_error + real" where
  "lch_similarity g synset1_id synset2_id =
     (if synset1_id = synset2_id
      then
        (let max_depth = lch_max_depth g synset1_id
         in py_bind (py_truediv 1 (real (2 * max_depth + 1)))
              (\<lambda>ratio. py_bind (py_log ratio) (\<lambda>l. Inr (- l))))
      else
        let path_length = find_shortest_path_length g synset1_id synset2_id
        in if path_length < 0 then Inr 0
           else
             let max_depth = lch_max_depth g synset1_id;
                 numerator = path_length + 1;
                 denominator = int (2 * max_depth + 1)
             in if numerator \<ge> denominator then Inr 0
                else py_bind (py_truediv (real_of_int numerator) (real_of_int denominator))
                       (\<lambda>ratio. py_bind (py_log ratio) (\<lambda>l. Inr (- l))))"

definition res_similarity :: "(string \<Rightarrow> nat) \<Rightarrow> rowordnet \<Rightarrow> string \<Rightarrow> string \<Rightarrow> py_error + real" where
  "res_similarity rank g synset1_id synset2_id =
     (if synset1_id = synset2_id then get_information_content g synset1_id
      else
        case find_lcs rank g synset1_id synset2_id of
          None \<Rightarrow> Inr 0
        | Some lcs_id \<Rightarrow> get_information_content g lcs_id)"

definition MAX_SIMILARITY :: real where
  "MAX_SIMILARITY = 10 ^ 10"

definition jcn_similarity :: "(string \<Rightarrow> nat) \<Rightarrow> rowordnet \<Rightarrow> string \<Rightarrow> string \<Rightarrow> py_error + real" where
  "jcn_similarity rank g synset1_id synset2_id =
     (if synset1_id = synset2_id then Inr MAX_SIMILARITY
      else
        case find_lcs rank g synset1_id synset2_id of
          None \<Rightarrow> Inr 0
        | Some lcs_id \<Rightarrow>
            py_bind (get_information_content g synset1_id) (\<lambda>ic_s1.
            py_bind (get_information_content g synset2_id) (\<lambda>ic_s2.
            py_bind (get_information_content g lcs_id) (\<lambda>ic_lcs.
              let distance = ic_s1 + ic_s2 - 2 * ic_lcs
              in if distance \<le> 0 then Inr MAX_SIMILARITY
                 else py_truediv 1 distance))))"

definition lin_similarity :: "(string \<Rightarrow> nat) \<Rightarrow> rowordnet \<Rightarrow> string \<Rightarrow> string \<Rightarrow> py_error + real" where
  "lin_similarity rank g synset1_id synset2_id =
     (if synset1_id = synset2_id then Inr 1
      else
        case find_lcs rank g synset1_id synset2_id of
          None \<Rightarrow> Inr 0
        | Some lcs_id \<Rightarrow>
            py_bind (get_information_content g synset1_id) (\<lambda>ic_s1.
            py_bind (get_information_content g synset2_id) (\<lambda>ic_s2.
            py_bind (get_information_content g lcs_id) (\<lambda>ic_lcs.
              let denominator = ic_s1 + ic_s2
              in if denominator = 0 then Inr 0
                 else py_truediv (2 * ic_lcs) denominator))))"

subsection \<open>HSO\<close>

datatype direction = Up | Down

type_synonym hso_state = "string \<times> nat \<times> nat \<times> direction option \<times> string set"

definition CONST_C :: int where "CONST_C = 16"
definition CONST_K :: int where "CONST_K = 1"
definition MAX_PATH_LENGTH :: nat where "MAX_PATH_LENGTH = 8"
definition MAX_DIRECTION_CHANGES :: nat where "MAX_DIRECTION_CHANGES = 5"

definition hso_score :: "nat \<times> nat \<Rightarrow> int" where
  "hso_score result = (case result of (path_len, dir_changes) \<Rightarrow>
     CONST_C - int path_len - CONST_K * int dir_changes)"

definition opposite :: "direction \<Rightarrow> direction" where
  "opposite d = (case d of Up \<Rightarrow> Down | Down \<Rightarrow> Up)"

text \<open>
  One of the two inner loops of \<open>_find_path_with_directions\<close>: the neighbours reached
  in direction \<open>dir\<close> from a state with the given length, change count, last direction
  and visited set. A neighbour that is the target updates the best result; any other
  neighbour not yet on this branch is queued.
\<close>

fun hso_scan ::
  "string \<Rightarrow> direction \<Rightarrow> nat \<Rightarrow> nat \<Rightarrow> direction option \<Rightarrow> string set \<Rightarrow> string list \<Rightarrow>
   (nat \<times> nat) option \<times> hso_state list \<Rightarrow> (nat \<times> nat) option \<times> hso_state list" where
  "hso_scan synset2_id dir path_len dir_changes last_dir visited [] (best_result, queue) =
     (best_result, queue)"
| "hso_scan synset2_id dir path_len dir_changes last_dir visited (neighbor_id # rest) (best_result, queue) =
     (let new_changes = dir_changes + (if last_dir = Some (opposite dir) then 1 else 0)
      in if neighbor_id = synset2_id
         then (let result = (path_len + 1, new_changes)
               in hso_scan synset2_id dir path_len dir_changes last_dir visited rest
                    (if best_result = None \<or> hso_score result > hso_score (the best_result)
                     then Some result else best_result, queue))
         else if neighbor_id \<notin> visited
         then hso_scan synset2_id dir path_len dir_changes last_dir visited rest
                (best_result,
                 queue @ [(neighbor_id, path_len + 1, new_changes, Some dir, insert neighbor_id visited)])
         else hso_scan synset2_id dir path_len dir_changes last_dir visited rest (best_result, queue))"

definition hso_weight :: "hso_state \<Rightarrow> nat" where
  "hso_weight st = (case st of (current_id, path_len, rest) \<Rightarrow> Suc MAX_PATH_LENGTH - path_len)"

lemma hso_scan_queue:
  "\<exists>new. snd (hso_scan t dir pl dc ld vis ns (b, q)) = q @ new \<and>
         (\<forall>st \<in> set new. fst (snd st) = pl + 1)"
proof (induction ns arbitrary: b q)
  case Nil
  then show ?case by simp
next
  case (Cons n ns)
  show ?case
  proof (cases "n = t")
    case True
    with Cons.IH show ?thesis by (simp add: Let_def)
  next
    case False
    show ?thesis
    proof (cases "n \<in> vis")
      case True
      with False Cons.IH show ?thesis by (simp add: Let_def)
    next
      case unvisited: False
      let ?st = "(n, pl + 1, dc + (if ld = Some (opposite dir) then 1 else 0), Some dir, insert n vis)"
      from Cons.IH[of b "q @ [?st]"] obtain new where
        new: "snd (hso_scan t dir pl dc ld vis ns (b, q @ [?st])) = (q @ [?st]) @ new"
          "\<forall>st \<in> set new. fst (snd st) = pl + 1"
        by blast
      then have "snd (hso_scan t dir pl dc ld vis (n # ns) (b, q)) = q @ (?st # new)"
        using False unvisited by (simp add: Let_def)
      moreover have "\<forall>st \<in> set (?st # new). fst (snd st) = pl + 1"
        using new(2) by simp
      ultimately show ?thesis by blast
    qed
  qed
qed

function hso_loop ::
  "rowordnet \<Rightarrow> string \<Rightarrow> hso_state list \<Rightarrow> (nat \<times> nat) option \<Rightarrow> (nat \<times> nat) option" where
  "hso_loop g synset2_id [] best_result = best_result"
| "hso_loop g synset2_id ((current_id, path_len, dir_changes, last_dir, visited) # queue) best_result =
     (if path_len > MAX_PATH_LENGTH then hso_loop g synset2_id queue best_result
      else if dir_changes > MAX_DIRECTION_CHANGES then hso_loop g synset2_id queue best_result
      else
        case hso_scan synset2_id Up path_len dir_changes last_dir visited
               (get_hypernyms g current_id) (best_result, queue) of
          (best1, queue1) \<Rightarrow>
            (case hso_scan synset2_id Down path_len dir_changes last_dir visited
                    (get_hyponyms g current_id) (best1, queue1) of
               (best2, queue2) \<Rightarrow> hso_loop g synset2_id queue2 best2))"
  by pat_completeness auto

lemma mult_replace_smaller:
  assumes "\<forall>k \<in> set ks. k < (j::nat)"
  shows "(mset (qs @ ks), mset (j # qs)) \<in> mult less_than"
proof -
  have "(mset qs + mset ks, mset qs + {#j#}) \<in> mult less_than"
    by (rule one_step_implies_mult) (use assms in auto)
  then show ?thesis by (simp add: add.commute)
qed

termination hso_loop
proof (relation "inv_image (mult less_than) (\<lambda>(g, synset2_id, queue, best_result). mset (map hso_weight queue))",
    goal_cases)
  case 1
  show ?case by (intro wf_inv_image wf_mult wf_less_than)
next
  case (2 g synset2_id current_id path_len dir_changes last_dir visited queue best_result)
  have "(mset (map hso_weight queue @ []), mset (hso_weight (current_id, path_len, dir_changes, last_dir, visited) # map hso_weight queue)) \<in> mult less_than"
    by (rule mult_replace_smaller) simp
  then show ?case by simp
next
  case (3 g synset2_id current_id path_len dir_changes last_dir visited queue best_result)
  have "(mset (map hso_weight queue @ []), mset (hso_weight (current_id, path_len, dir_changes, last_dir, visited) # map hso_weight queue)) \<in> mult less_than"
    by (rule mult_replace_smaller) simp
  then show ?case by simp
next
  case (4 g synset2_id current_id path_len dir_changes last_dir visited queue best_result best1 queue1 best2 queue2)
  from hso_scan_queue[of synset2_id Up path_len dir_changes last_dir visited "get_hypernyms g current_id" best_result queue]
    4 obtain new1 where n1: "queue1 = queue @ new1" "\<forall>st \<in> set new1. fst (snd st) = path_len + 1"
    by (metis snd_conv)
  from hso_scan_queue[of synset2_id Down path_len dir_changes last_dir visited "get_hyponyms g current_id" best1 queue1]
    4 obtain new2 where n2: "queue2 = queue1 @ new2" "\<forall>st \<in> set new2. fst (snd st) = path_len + 1"
    by (metis snd_conv)
  from 4 have le: "path_len \<le> MAX_PATH_LENGTH" by simp
  have "\<forall>k \<in> set (map hso_weight (new1 @ new2)).
      k < hso_weight (current_id, path_len, dir_changes, last_dir, visited)"
    using n1(2) n2(2) le by (auto simp: hso_weight_def split: prod.splits)
  from mult_replace_smaller[OF this, of "map hso_weight queue"]
  show ?case by (simp add: n1 n2)
qed

definition find_path_with_directions :: "rowordnet \<Rightarrow> string \<Rightarrow> string \<Rightarrow> (nat \<times> nat) option" where
  "find_path_with_directions g synset1_id synset2_id =
     (if synset1_id = synset2_id then Some (0, 0)
      else hso_loop g synset2_id [(synset1_id, 0, 0, None, {synset1_id})] None)"

definition hso_similarity :: "rowordnet \<Rightarrow> string \<Rightarrow> string \<Rightarrow> py_error + real" where
  "hso_similarity g synset1_id synset2_id =
     (if synset1_id = synset2_id then Inr (real_of_int CONST_C)
      else
        case find_path_with_directions g synset1_id synset2_id of
          None \<Rightarrow> Inr 0
        | Some result \<Rightarrow> Inr (max 0 (real_of_int (hso_score result))))"

subsection \<open>LESK\<close>

text \<open>
  The regular expression of \<open>_tokenize\<close>: a word boundary, one or more characters
  that are ASCII letters or lie in U+0100 to U+017F, a word boundary.
  \<open>is_word_char\<close> is the class
  \<open>\w\<close> of Python's Unicode matching (alphanumeric or underscore) on the blocks covered
  by \<open>lower_cp\<close>; \<open>word_boundary\<close> is \<open>\b\<close> between two neighbouring positions, the
  outside of the text counting as a non-word character.
\<close>

definition is_word_char :: "nat \<Rightarrow> bool" where
  "is_word_char c \<longleftrightarrow>
     c = 95 \<or> (48 \<le> c \<and> c \<le> 57) \<or> (65 \<le> c \<and> c \<le> 90) \<or> (97 \<le> c \<and> c \<le> 122) \<or>
     c \<in> {170, 178, 179, 181, 185, 186, 188, 189, 190} \<or>
     (192 \<le> c \<and> c \<le> 214) \<or> (216 \<le> c \<and> c \<le> 246) \<or> (248 \<le> c \<and> c \<le> 383) \<or>
     (536 \<le> c \<and> c \<le> 539)"

definition in_token_class :: "nat \<Rightarrow> bool" where
  "in_token_class c \<longleftrightarrow>
     (97 \<le> c \<and> c \<le> 122) \<or> (65 \<le> c \<and> c \<le> 90) \<or> (256 \<le> c \<and> c \<le> 383)"

definition word_boundary :: "nat option \<Rightarrow> nat option \<Rightarrow> bool" where
  "word_boundary prev after \<longleftrightarrow>
     (case prev of None \<Rightarrow> False | Some c \<Rightarrow> is_word_char c) \<noteq>
     (case after of None \<Rightarrow> False | Some c \<Rightarrow> is_word_char c)"

text \<open>
  The greedy \<open>+\<close> takes the longest run of class characters and gives characters back
  until the closing \<open>\b\<close> holds: \<open>backtrack xs k\<close> is the longest match of at most
  \<open>k\<close> characters at the head of \<open>xs\<close>.
\<close>

fun backtrack :: "py_str \<Rightarrow> nat \<Rightarrow> nat option" where
  "backtrack xs 0 = None"
| "backtrack xs (Suc k) =
     (if word_boundary (Some (xs ! k)) (if Suc k < length xs then Some (xs ! Suc k) else None)
      then Some (Suc k) else backtrack xs k)"

definition match_at :: "nat option \<Rightarrow> py_str \<Rightarrow> nat option" where
  "match_at prev xs =
     (if word_boundary prev (case xs of [] \<Rightarrow> None | c # _ \<Rightarrow> Some c)
      then backtrack xs (length (takeWhile in_token_class xs))
      else None)"

lemma backtrack_pos: "backtrack xs n = Some k \<Longrightarrow> 0 < k \<and> k \<le> n"
  by (induction n) (auto split: if_splits)

lemma match_at_pos: "match_at prev xs = Some k \<Longrightarrow> 0 < k"
  by (auto simp: match_at_def split: if_splits dest: backtrack_pos)

function findall :: "nat option \<Rightarrow> py_str \<Rightarrow> py_str list" where
  "findall prev [] = []"
| "findall prev (c # cs) =
     (case match_at prev (c # cs) of
        Some k \<Rightarrow> take k (c # cs) # findall (Some ((c # cs) ! (k - 1))) (drop k (c # cs))
      | None \<Rightarrow> findall (Some c) cs)"
  by pat_completeness auto

termination findall
proof (relation "measure (\<lambda>(prev, xs). length xs)", goal_cases)
  case 1
  show ?case by simp
next
  case (2 prev c cs)
  show ?case by simp
next
  case (3 prev c cs k)
  from match_at_pos[OF 3] show ?case by simp
qed

definition STOP_WORDS :: "py_str list" where
  "STOP_WORDS = map str
     [''a'', ''an'', ''the'', ''is'', ''are'', ''was'', ''were'', ''be'', ''been'',
      ''being'', ''have'', ''has'', ''had'', ''do'', ''does'', ''did'', ''will'',
      ''would'', ''could'', ''should'', ''may'', ''might'', ''must'', ''shall'',
      ''can'', ''of'', ''in'', ''to'', ''for'', ''with'', ''on'', ''at'', ''by'',
      ''from'', ''as'', ''into'', ''through'', ''during'', ''before'', ''after'',
      ''above'', ''below'', ''between'', ''under'', ''again'', ''further'',
      ''then'', ''once'', ''here'', ''there'', ''when'', ''where'', ''why'',
      ''how'', ''all'', ''each'', ''few'', ''more'', ''most'', ''other'', ''some'',
      ''such'', ''no'', ''nor'', ''not'', ''only'', ''own'', ''same'', ''so'',
      ''than'', ''too'', ''very'', ''just'', ''and'', ''but'', ''if'', ''or'',
      ''because'', ''while'', ''although'', ''this'', ''that'', ''these'',
      ''those'', ''it'', ''its'', ''i'', ''you'', ''he'', ''she'', ''we'', ''they'',
      ''what'', ''which'', ''who'', ''whom'', ''whose'',
      ''un'', ''o'', ''una'', ''este'', ''sunt'', ''era'', ''fost'', ''fi'', ''fiind'',
      ''avea'', ''are'', ''au'', ''de'', ''la'', ''cu'', ''pe'', ''in'', ''pentru'',
      ''din'', ''ca'', ''prin'', ''despre'', ''spre'', ''intre'', ''sub'', ''peste'',
      ''dupa'', ''inainte'', ''aici'', ''acolo'', ''cand'', ''unde'', ''cum'',
      ''toti'', ''toate'', ''fiecare'', ''mai'', ''cel'', ''cea'', ''cei'', ''cele'',
      ''alt'', ''alta'', ''alti'', ''alte'', ''nici'', ''numai'', ''doar'', ''si'',
      ''dar'', ''daca'', ''sau'', ''pentru'', ''ca'', ''aceasta'', ''acest'',
      ''aceste'', ''acestea'', ''el'', ''ea'', ''ei'', ''ele'', ''noi'', ''voi'',
      ''ce'', ''care'', ''cine'', ''cui'']"

definition tokenize :: "py_str \<Rightarrow> py_str set" where
  "tokenize text =
     (if text = [] then {}
      else
        let words = findall None (lower text)
        in set [w \<leftarrow> words. w \<notin> set STOP_WORDS \<and> length w > 2])"

definition get_extended_gloss :: "rowordnet \<Rightarrow> string \<Rightarrow> py_str set" where
  "get_extended_gloss g synset_id =
     (let own = tokenize (get_definition g synset_id);
          lits = (case get_synset g synset_id of
                    Some synset \<Rightarrow> \<Union> (set (map tokenize (get_synset_literals synset)))
                  | None \<Rightarrow> {});
          related = get_related_synsets g synset_id;
          rels = \<Union> (set (map (\<lambda>rel_id. tokenize (get_definition g rel_id)) (take 5 related)))
      in own \<union> lits \<union> rels)"

definition lesk_similarity :: "rowordnet \<Rightarrow> string \<Rightarrow> string \<Rightarrow> py_error + real" where
  "lesk_similarity g synset1_id synset2_id =
     (if synset1_id = synset2_id
      then (let gloss_tokens = get_extended_gloss g synset1_id in Inr (real (card gloss_tokens)))
      else
        let tokens1 = get_extended_gloss g synset1_id;
            tokens2 = get_extended_gloss g synset2_id
        in if tokens1 = {} \<or> tokens2 = {} then Inr 0
           else (let overlap = tokens1 \<inter> tokens2 in Inr (real (card overlap))))"

text \<open>
  The two branches of \<open>calculate_synset_similarity\<close> cannot be told apart by the number
  they return on one and the same gloss: the overlap of a set with itself has the size of
  the set, and is empty when the set is. What differs is what the method does.
  \<open>lesk_similarity_calls\<close> is the same method body with the calls it makes recorded in
  the order in which they are made: each call of \<open>_get_extended_gloss\<close>, of
  \<open>intersection\<close> and of \<open>len\<close>, with its arguments.
\<close>

datatype lesk_call =
    Get_extended_gloss string
  | Intersection "py_str set" "py_str set"
  | Len "py_str set"

type_synonym 'a recorded = "lesk_call list \<times> 'a"

definition returns :: "'a \<Rightarrow> 'a recorded" where
  "returns x = ([], x)"

definition then_call :: "'a recorded \<Rightarrow> ('a \<Rightarrow> 'b recorded) \<Rightarrow> 'b recorded" where
  "then_call m f = (case m of (calls, x) \<Rightarrow> case f x of (calls', y) \<Rightarrow> (calls @ calls', y))"

definition call_get_extended_gloss :: "rowordnet \<Rightarrow> string \<Rightarrow> py_str set recorded" where
  "call_get_extended_gloss g synset_id =
     ([Get_extended_gloss synset_id], get_extended_gloss g synset_id)"

definition call_intersection :: "py_str set \<Rightarrow> py_str set \<Rightarrow> py_str set recorded" where
  "call_intersection tokens1 tokens2 = ([Intersection tokens1 tokens2], tokens1 \<inter> tokens2)"

definition call_len :: "py_str set \<Rightarrow> nat recorded" where
  "call_len tokens = ([Len tokens], card tokens)"

definition lesk_similarity_calls ::
  "rowordnet \<Rightarrow> string \<Rightarrow> string \<Rightarrow> (py_error + real) recorded" where
  "lesk_similarity_calls g synset1_id synset2_id =
     (if synset1_id = synset2_id
      then
        then_call (call_get_extended_gloss g synset1_id) (\<lambda>gloss_tokens.
        then_call (call_len gloss_tokens) (\<lambda>n.
        returns (Inr (real n))))
      else
        then_call (call_get_extended_gloss g synset1_id) (\<lambda>tokens1.
        then_call (call_get_extended_gloss g synset2_id) (\<lambda>tokens2.
        if tokens1 = {} \<or> tokens2 = {} then returns (Inr 0)
        else
          then_call (call_intersection tokens1 tokens2) (\<lambda>overlap.
          then_call (call_len overlap) (\<lambda>n.
          returns (Inr (real n)))))))"

lemmas recorded_defs =
  returns_def then_call_def call_get_extended_gloss_def call_intersection_def call_len_def

text \<open>
  Recording the calls does not change the result.
\<close>

lemma lesk_similarity_calls_value:
  "snd (lesk_similarity_calls g a b) = lesk_similarity g a b"
  by (simp add: lesk_similarity_calls_def lesk_similarity_def recorded_defs Let_def)

section \<open>Word-level helpers and the service\<close>

datatype measure = PATH | WUP | LCH | RES | JCN | LIN | LESK | HSO

definition algorithm_name :: "measure \<Rightarrow> string" where
  "algorithm_name m =
     (case m of PATH \<Rightarrow> ''path'' | WUP \<Rightarrow> ''wup'' | LCH \<Rightarrow> ''lch'' | RES \<Rightarrow> ''res''
      | JCN \<Rightarrow> ''jcn'' | LIN \<Rightarrow> ''lin'' | LESK \<Rightarrow> ''lesk'' | HSO \<Rightarrow> ''hso'')"

definition calculate_synset_similarity ::
  "(string \<Rightarrow> nat) \<Rightarrow> rowordnet \<Rightarrow> measure \<Rightarrow> string \<Rightarrow> string \<Rightarrow> py_error + real" where
  "calculate_synset_similarity rank g m synset1_id synset2_id =
     (case m of
        PATH \<Rightarrow> path_similarity g synset1_id synset2_id
      | WUP \<Rightarrow> wup_similarity rank g synset1_id synset2_id
      | LCH \<Rightarrow> lch_similarity g synset1_id synset2_id
      | RES \<Rightarrow> res_similarity rank g synset1_id synset2_id
      | JCN \<Rightarrow> jcn_similarity rank g synset1_id synset2_id
      | LIN \<Rightarrow> lin_similarity rank g synset1_id synset2_id
      | LESK \<Rightarrow> lesk_similarity g synset1_id synset2_id
      | HSO \<Rightarrow> hso_similarity g synset1_id synset2_id)"

text \<open>
  The nested loops of \<open>calculate_word_similarity\<close> over the pairs of candidate synsets,
  in the order of the loops; an exception raised by a measure ends the loops.
\<close>

fun score_pairs ::
  "(string \<Rightarrow> nat) \<Rightarrow> rowordnet \<Rightarrow> measure \<Rightarrow> (synset \<times> synset) list \<Rightarrow>
   py_error + (string \<times> string \<times> real) list" where
  "score_pairs rank g m [] = Inr []"
| "score_pairs rank g m ((s1, s2) # rest) =
     (let s1_id = get_synset_id s1;
          s2_id = get_synset_id s2;
          s1_pos = get_synset_pos s1;
          s2_pos = get_synset_pos s2
      in if s1_pos = s2_pos
         then py_bind (calculate_synset_similarity rank g m s1_id s2_id) (\<lambda>sim.
              py_bind (score_pairs rank g m rest) (\<lambda>results.
                Inr ((s1_id, s2_id, sim) # results)))
         else score_pairs rank g m rest)"

definition calculate_word_similarity ::
  "(string \<Rightarrow> nat) \<Rightarrow> rowordnet \<Rightarrow> measure \<Rightarrow> py_str \<Rightarrow> py_str \<Rightarrow>
   py_error + (string \<times> string \<times> real) list" where
  "calculate_word_similarity rank g m word1 word2 =
     (let synsets1 = get_synsets_for_word g word1;
          synsets2 = get_synsets_for_word g word2
      in if synsets1 = [] \<or> synsets2 = [] then Inr []
         else score_pairs rank g m (List.product synsets1 synsets2))"

definition get_max_similarity ::
  "(string \<Rightarrow> nat) \<Rightarrow> rowordnet \<Rightarrow> measure \<Rightarrow> py_str \<Rightarrow> py_str \<Rightarrow> py_error + real" where
  "get_max_similarity rank g m word1 word2 =
     py_bind (calculate_word_similarity rank g m word1 word2) (\<lambda>results.
       if results = [] then Inr 0
       else Inr (Max (set (map (\<lambda>r. snd (snd r)) results))))"

text \<open>Python's \<open>max(results, key=...)\<close> keeps the first of several maximal elements.\<close>

definition py_max_by :: "('a \<Rightarrow> real) \<Rightarrow> 'a list \<Rightarrow> 'a" where
  "py_max_by key xs = fold (\<lambda>x best. if key x > key best then x else best) (tl xs) (hd xs)"

definition get_best_pair ::
  "(string \<Rightarrow> nat) \<Rightarrow> rowordnet \<Rightarrow> measure \<Rightarrow> py_str \<Rightarrow> py_str \<Rightarrow>
   py_error + (string \<times> string \<times> real) option" where
  "get_best_pair rank g m word1 word2 =
     py_bind (calculate_word_similarity rank g m word1 word2) (\<lambda>results.
       if results = [] then Inr None
       else Inr (Some (py_max_by (\<lambda>r. snd (snd r)) results)))"

text \<open>
  The body of the loop over the algorithms in the \<open>/similarity\<close> endpoint, for one
  algorithm: \<open>synsets1\<close> and \<open>synsets2\<close> are the candidates left after the filters on
  part of speech and sense, \<open>sense1\<close> and \<open>sense2\<close> the sense numbers of the request.
  \<open>round(x, 6)\<close> is rounding to six decimals, halves to even.
\<close>

record algorithm_result =
  algorithm :: string
  similarity :: real
  synset1 :: "string option"
  synset2 :: "string option"

definition py_round6 :: "real \<Rightarrow> real" where
  "py_round6 x =
     (let y = x * 10 ^ 6;
          f = \<lfloor>y\<rfloor>;
          r = (if y - of_int f < 1 / 2 then f
               else if y - of_int f > 1 / 2 then f + 1
               else if even f then f else f + 1)
      in of_int r / 10 ^ 6)"

definition upper_name :: "measure \<Rightarrow> string" where
  "upper_name m =
     (case m of PATH \<Rightarrow> ''PATH'' | WUP \<Rightarrow> ''WUP'' | LCH \<Rightarrow> ''LCH'' | RES \<Rightarrow> ''RES''
      | JCN \<Rightarrow> ''JCN'' | LIN \<Rightarrow> ''LIN'' | LESK \<Rightarrow> ''LESK'' | HSO \<Rightarrow> ''HSO'')"

definition truthy :: "int option \<Rightarrow> bool" where
  "truthy sense \<longleftrightarrow> (case sense of None \<Rightarrow> False | Some n \<Rightarrow> n \<noteq> 0)"

definition similarity_result ::
  "(string \<Rightarrow> nat) \<Rightarrow> rowordnet \<Rightarrow> measure \<Rightarrow> py_str \<Rightarrow> py_str \<Rightarrow> synset list \<Rightarrow> synset list \<Rightarrow>
   int option \<Rightarrow> int option \<Rightarrow> py_error + algorithm_result" where
  "similarity_result rank g m word1 word2 synsets1 synsets2 sense1 sense2 =
     (if (truthy sense1 \<or> truthy sense2) \<and> length synsets1 = 1 \<and> length synsets2 = 1
      then
        (let s1_id = get_synset_id (hd synsets1);
             s2_id = get_synset_id (hd synsets2);
             s1_pos = get_synset_pos (hd synsets1);
             s2_pos = get_synset_pos (hd synsets2)
         in if s1_pos = s2_pos \<or> algorithm_name m \<in> set [''lesk'', ''hso'']
            then py_bind (calculate_synset_similarity rank g m s1_id s2_id) (\<lambda>sim.
                   Inr \<lparr>algorithm = upper_name m, similarity = py_round6 sim,
                        synset1 = Some s1_id, synset2 = Some s2_id\<rparr>)
            else Inr \<lparr>algorithm = upper_name m, similarity = 0, synset1 = None, synset2 = None\<rparr>)
      else
        py_bind (get_best_pair rank g m word1 word2) (\<lambda>best_pair.
          case best_pair of
            Some (synset1_id, synset2_id, sim) \<Rightarrow>
              Inr \<lparr>algorithm = upper_name m, similarity = py_round6 sim,
                   synset1 = Some synset1_id, synset2 = Some synset2_id\<rparr>
          | None \<Rightarrow> Inr \<lparr>algorithm = upper_name m, similarity = 0, synset1 = None, synset2 = None\<rparr>))"

subsection \<open>No measure raises\<close>

lemma count_descendants_loop_ge: "n \<le> count_descendants_loop g visited queue n"
  by (induction g visited queue n rule: count_descendants_loop.induct) auto

lemma count_descendants_pos: "1 \<le> count_descendants g s"
proof -
  have "\<exists>queue. count_descendants g s = count_descendants_loop g {s} queue 1"
    by (simp add: count_descendants_def) blast
  then obtain queue where "count_descendants g s = count_descendants_loop g {s} queue 1" ..
  with count_descendants_loop_ge[of 1 g "{s}" queue]
  show ?thesis by simp
qed

definition ic_value :: "rowordnet \<Rightarrow> string \<Rightarrow> real" where
  "ic_value g s = - ln (real (count_descendants g s) / real (synset_cache_len g + 1))"

lemma get_information_content_value: "get_information_content g s = Inr (ic_value g s)"
proof -
  have "0 < real (count_descendants g s) / real (synset_cache_len g + 1)"
    using count_descendants_pos[of g s] by simp
  then show ?thesis
    by (simp add: get_information_content_def ic_value_def py_truediv_def py_log_def Let_def)
qed

lemma find_shortest_path_length_same: "find_shortest_path_length g s s = 0"
  by (simp add: find_shortest_path_length_def)

lemma path_similarity_total: "\<exists>r. path_similarity g a b = Inr r"
  by (auto simp: path_similarity_def py_truediv_def Let_def)

lemma wup_similarity_total: "\<exists>r. wup_similarity rank g a b = Inr r"
  by (auto simp: wup_similarity_def py_truediv_def Let_def split: option.splits)

lemma lch_log_ratio:
  "0 < x \<Longrightarrow> 0 < y \<Longrightarrow>
   py_bind (py_truediv x y) (\<lambda>ratio. py_bind (py_log ratio) (\<lambda>l. Inr (- l))) = Inr (- ln (x / y))"
  using divide_pos_pos[of x y] by (simp add: py_bind_def py_truediv_def py_log_def not_le)

lemma lch_similarity_total: "\<exists>r. lch_similarity g a b = Inr r"
proof (cases "a = b")
  case True
  have "0 < real (2 * lch_max_depth g a + 1)" by simp
  from lch_log_ratio[OF zero_less_one this] True show ?thesis
    by (simp add: lch_similarity_def Let_def del: of_nat_add of_nat_mult)
next
  case False
  let ?p = "find_shortest_path_length g a b"
  show ?thesis
  proof (cases "?p < 0 \<or> ?p + 1 \<ge> int (2 * lch_max_depth g a + 1)")
    case True
    with False show ?thesis
      by (auto simp: lch_similarity_def Let_def)
  next
    case inner: False
    then have "0 < real_of_int (?p + 1)" "0 < real_of_int (int (2 * lch_max_depth g a + 1))"
      by simp_all
    from lch_log_ratio[OF this] False inner show ?thesis
      by (simp add: lch_similarity_def Let_def del: of_nat_add of_nat_mult of_int_add)
  qed
qed

lemma res_similarity_total: "\<exists>r. res_similarity rank g a b = Inr r"
  by (auto simp: res_similarity_def get_information_content_value split: option.splits)

lemma jcn_similarity_total: "\<exists>r. jcn_similarity rank g a b = Inr r"
  by (auto simp: jcn_similarity_def get_information_content_value py_bind_def py_truediv_def
      Let_def split: option.splits)

lemma lin_similarity_total: "\<exists>r. lin_similarity rank g a b = Inr r"
  by (auto simp: lin_similarity_def get_information_content_value py_bind_def py_truediv_def
      Let_def split: option.splits)

lemma lesk_similarity_total: "\<exists>r. lesk_similarity g a b = Inr r"
  by (auto simp: lesk_similarity_def Let_def)

lemma hso_similarity_total: "\<exists>r. hso_similarity g a b = Inr r"
  by (auto simp: hso_similarity_def split: option.splits)

lemma calculate_synset_similarity_total:
  "\<exists>r. calculate_synset_similarity rank g m a b = Inr r"
  unfolding calculate_synset_similarity_def
  by (cases m)
    (simp_all add: path_similarity_total wup_similarity_total lch_similarity_total
      res_similarity_total jcn_similarity_total lin_similarity_total lesk_similarity_total
      hso_similarity_total)

definition pair_ids :: "(string \<times> string \<times> real) list \<Rightarrow> (string \<times> string) list" where
  "pair_ids results = map (\<lambda>r. (fst r, fst (snd r))) results"

lemma score_pairs_pairs:
  "\<exists>results. score_pairs rank g m ps = Inr results \<and>
     pair_ids results =
       [(get_synset_id (fst p), get_synset_id (snd p)). p \<leftarrow> ps,
          get_synset_pos (fst p) = get_synset_pos (snd p)]"
proof (induction ps)
  case Nil
  then show ?case by (simp add: pair_ids_def)
next
  case (Cons p ps)
  obtain s1 s2 where p: "p = (s1, s2)" by (cases p)
  from Cons obtain results where r: "score_pairs rank g m ps = Inr results"
    "pair_ids results =
       [(get_synset_id (fst p), get_synset_id (snd p)). p \<leftarrow> ps,
          get_synset_pos (fst p) = get_synset_pos (snd p)]"
    by blast
  obtain sim where sim: "calculate_synset_similarity rank g m (get_synset_id s1) (get_synset_id s2) = Inr sim"
    using calculate_synset_similarity_total by blast
  show ?case
    using r sim by (simp add: p py_bind_def Let_def pair_ids_def)
qed

lemma score_pairs_none:
  "\<forall>p \<in> set ps. get_synset_pos (fst p) \<noteq> get_synset_pos (snd p) \<Longrightarrow>
   score_pairs rank g m ps = Inr []"
  by (induction ps) (auto simp: Let_def)

lemma product_comprehension:
  "[f (fst p) (snd p). p \<leftarrow> List.product xs ys, P (fst p) (snd p)] =
   [f x y. x \<leftarrow> xs, y \<leftarrow> ys, P x y]"
  by (induction xs) (simp_all add: comp_def cong: if_cong)

lemma empty_comprehension: "[f x y. x \<leftarrow> xs, y \<leftarrow> [], P x y] = []"
  by (induction xs) simp_all

lemma calculate_word_similarity_pairs:
  "\<exists>results. calculate_word_similarity rank g m word1 word2 = Inr results \<and>
     pair_ids results =
       [(get_synset_id s1, get_synset_id s2).
          s1 \<leftarrow> get_synsets_for_word g word1, s2 \<leftarrow> get_synsets_for_word g word2,
          get_synset_pos s1 = get_synset_pos s2]"
proof (cases "get_synsets_for_word g word1 = [] \<or> get_synsets_for_word g word2 = []")
  case True
  then show ?thesis
    by (auto simp: calculate_word_similarity_def pair_ids_def empty_comprehension)
next
  case False
  from score_pairs_pairs[of rank g m "List.product (get_synsets_for_word g word1) (get_synsets_for_word g word2)"]
  show ?thesis
    using False
    by (simp add: calculate_word_similarity_def
        product_comprehension[where f = "\<lambda>a b. (get_synset_id a, get_synset_id b)"
          and P = "\<lambda>a b. get_synset_pos a = get_synset_pos b"])
qed

section \<open>Which pairs of senses are scored\<close>

lemma name_lesk_hso:
  "algorithm_name m \<in> set [''lesk'', ''hso''] \<longleftrightarrow> m = LESK \<or> m = HSO"
  by (cases m) (simp_all add: algorithm_name_def)

text \<open>
  Claim C1, as amended. For every pair of words and every measure, LESK and HSO included,
  \<open>calculate_word_similarity\<close> (on which the best-pair and max-similarity helpers rest)
  returns one result for each candidate pair with equal part of speech, in the order of
  the nested loops, and for no other pair. LESK and HSO are exempt from the
  part-of-speech check only in the service, on the path taken when a sense number is
  given and each word is left with a single candidate: there the pair is scored for LESK
  and HSO whatever the parts of speech, and for the other six measures a pair with
  different parts of speech is reported as 0.0 without synsets.
\<close>

theorem helper_filters_pos_for_every_measure:
  "(\<exists>results. calculate_word_similarity rank g m word1 word2 = Inr results \<and>
      pair_ids results =
        [(get_synset_id s1, get_synset_id s2).
           s1 \<leftarrow> get_synsets_for_word g word1, s2 \<leftarrow> get_synsets_for_word g word2,
           get_synset_pos s1 = get_synset_pos s2]) \<and>
   ((truthy sense1 \<or> truthy sense2) \<and> (m = LESK \<or> m = HSO) \<longrightarrow>
      (\<exists>sim. calculate_synset_similarity rank g m (get_synset_id s1) (get_synset_id s2) = Inr sim \<and>
         similarity_result rank g m word1 word2 [s1] [s2] sense1 sense2 =
           Inr \<lparr>algorithm = upper_name m, similarity = py_round6 sim,
                synset1 = Some (get_synset_id s1), synset2 = Some (get_synset_id s2)\<rparr>)) \<and>
   ((truthy sense1 \<or> truthy sense2) \<and> m \<noteq> LESK \<and> m \<noteq> HSO \<and>
      get_synset_pos s1 \<noteq> get_synset_pos s2 \<longrightarrow>
      similarity_result rank g m word1 word2 [s1] [s2] sense1 sense2 =
        Inr \<lparr>algorithm = upper_name m, similarity = 0, synset1 = None, synset2 = None\<rparr>)"
proof (intro conjI impI)
  show "\<exists>results. calculate_word_similarity rank g m word1 word2 = Inr results \<and>
      pair_ids results =
        [(get_synset_id s1, get_synset_id s2).
           s1 \<leftarrow> get_synsets_for_word g word1, s2 \<leftarrow> get_synsets_for_word g word2,
           get_synset_pos s1 = get_synset_pos s2]"
    by (rule calculate_word_similarity_pairs)
next
  assume a: "(truthy sense1 \<or> truthy sense2) \<and> (m = LESK \<or> m = HSO)"
  obtain sim where sim:
    "calculate_synset_similarity rank g m (get_synset_id s1) (get_synset_id s2) = Inr sim"
    using calculate_synset_similarity_total by blast
  from a have "algorithm_name m \<in> set [''lesk'', ''hso'']"
    by (simp only: name_lesk_hso)
  with a sim have "similarity_result rank g m word1 word2 [s1] [s2] sense1 sense2 =
      Inr \<lparr>algorithm = upper_name m, similarity = py_round6 sim,
           synset1 = Some (get_synset_id s1), synset2 = Some (get_synset_id s2)\<rparr>"
    by (simp add: similarity_result_def py_bind_def Let_def)
  with sim show "\<exists>sim. calculate_synset_similarity rank g m (get_synset_id s1) (get_synset_id s2) = Inr sim \<and>
         similarity_result rank g m word1 word2 [s1] [s2] sense1 sense2 =
           Inr \<lparr>algorithm = upper_name m, similarity = py_round6 sim,
                synset1 = Some (get_synset_id s1), synset2 = Some (get_synset_id s2)\<rparr>"
    by blast
next
  assume a: "(truthy sense1 \<or> truthy sense2) \<and> m \<noteq> LESK \<and> m \<noteq> HSO \<and>
      get_synset_pos s1 \<noteq> get_synset_pos s2"
  then have "algorithm_name m \<notin> set [''lesk'', ''hso'']"
    by (simp only: name_lesk_hso) simp
  with a show "similarity_result rank g m word1 word2 [s1] [s2] sense1 sense2 =
        Inr \<lparr>algorithm = upper_name m, similarity = 0, synset1 = None, synset2 = None\<rparr>"
    by (simp add: similarity_result_def Let_def)
qed

text \<open>
  A loader with a noun and a verb whose glosses share the token \<open>apa\<close>.
\<close>

definition pos_example :: rowordnet where
  "pos_example =
     \<lparr>rwn_synsets =
        [\<lparr>syn_id = ''lac-n'', syn_pos = PyStr (str ''n''), syn_literals = [str ''lac''],
          syn_definition = str ''intindere mare de apa statatoare''\<rparr>,
         \<lparr>syn_id = ''inota-v'', syn_pos = PyStr (str ''v''), syn_literals = [str ''inota''],
          syn_definition = str ''a pluti pe apa facand miscari''\<rparr>],
      rwn_relations = []\<rparr>"

definition word_lac :: py_str where "word_lac = str ''lac''"
definition word_inota :: py_str where "word_inota = str ''inota''"
definition word_nor :: py_str where "word_nor = str ''nor''"

definition lac :: synset where
  "lac = \<lparr>syn_id = ''lac-n'', syn_pos = PyStr (str ''n''), syn_literals = [str ''lac''],
          syn_definition = str ''intindere mare de apa statatoare''\<rparr>"

definition inota :: synset where
  "inota = \<lparr>syn_id = ''inota-v'', syn_pos = PyStr (str ''v''), syn_literals = [str ''inota''],
          syn_definition = str ''a pluti pe apa facand miscari''\<rparr>"


lemma pos_example_synsets:
  "get_synsets_for_word pos_example word_lac = [lac]"
  "get_synsets_for_word pos_example word_inota = [inota]"
  "get_synsets_for_word pos_example word_nor = []"
  by code_simp+

lemma pos_example_pos:
  "get_synset_pos lac = ''n''" "get_synset_pos inota = ''v''"
  by code_simp+


lemma pos_example_unscored:
  "calculate_word_similarity rank pos_example m word_lac word_inota = Inr []"
  by (simp add: calculate_word_similarity_def pos_example_synsets pos_example_pos Let_def)

text \<open>
  Claim C1 as stated fails. The only candidate pair of \<open>lac\<close> and \<open>inota\<close> is a noun
  and a verb, and LESK would score it 1; on the best-pair path no pair is scored for LESK
  or HSO, and the service reports 0.0 without synsets.
\<close>

theorem best_pair_path_skips_pos_mismatch_for_lesk_and_hso:
  "get_synsets_for_word pos_example word_lac = [lac] \<and>
   get_synsets_for_word pos_example word_inota = [inota] \<and>
   get_synset_pos lac \<noteq> get_synset_pos inota \<and>
   lesk_similarity pos_example (get_synset_id lac) (get_synset_id inota) = Inr 1 \<and>
   calculate_word_similarity flat_rank pos_example LESK word_lac word_inota = Inr [] \<and>
   get_best_pair flat_rank pos_example LESK word_lac word_inota = Inr None \<and>
   calculate_word_similarity flat_rank pos_example HSO word_lac word_inota = Inr [] \<and>
   get_best_pair flat_rank pos_example HSO word_lac word_inota = Inr None \<and>
   similarity_result flat_rank pos_example LESK word_lac word_inota [lac] [inota] None None =
     Inr \<lparr>algorithm = ''LESK'', similarity = 0, synset1 = None, synset2 = None\<rparr>"
proof -
  have "lesk_similarity pos_example (get_synset_id lac) (get_synset_id inota) = Inr 1"
    by code_simp
  then show ?thesis
    by (simp add: pos_example_synsets pos_example_pos pos_example_unscored get_best_pair_def
        similarity_result_def py_bind_def truthy_def upper_name_def)
qed

theorem helper_filters_pos_for_every_measure_witness:
  "(\<exists>sim. calculate_synset_similarity flat_rank pos_example LESK (get_synset_id lac) (get_synset_id inota) = Inr sim \<and>
      similarity_result flat_rank pos_example LESK word_lac word_inota [lac] [inota] (Some 1) None =
        Inr \<lparr>algorithm = upper_name LESK, similarity = py_round6 sim,
             synset1 = Some (get_synset_id lac), synset2 = Some (get_synset_id inota)\<rparr>) \<and>
   similarity_result flat_rank pos_example PATH word_lac word_inota [lac] [inota] (Some 1) None =
     Inr \<lparr>algorithm = upper_name PATH, similarity = 0, synset1 = None, synset2 = None\<rparr>"
  using helper_filters_pos_for_every_measure[of flat_rank pos_example LESK word_lac word_inota
      "Some 1" None lac inota]
    helper_filters_pos_for_every_measure[of flat_rank pos_example PATH word_lac word_inota
      "Some 1" None lac inota]
  by (simp add: truthy_def pos_example_pos)

lemma no_results_outcomes:
  "calculate_word_similarity rank g m word1 word2 = Inr [] \<Longrightarrow>
   get_max_similarity rank g m word1 word2 = Inr 0 \<and> get_best_pair rank g m word1 word2 = Inr None"
  by (simp add: get_max_similarity_def get_best_pair_def py_bind_def)

text \<open>
  Claim C10. For every measure, when both words have candidate synsets but no candidate
  pair has equal part of speech, \<open>get_max_similarity\<close> returns 0.0 and
  \<open>get_best_pair\<close> returns \<open>None\<close>, exactly the outcomes for a word without
  candidates.
\<close>

theorem pos_incompatible_like_unknown_word:
  "((get_synsets_for_word g word1 = [] \<or> get_synsets_for_word g word2 = []) \<longrightarrow>
      get_max_similarity rank g m word1 word2 = Inr 0 \<and>
      get_best_pair rank g m word1 word2 = Inr None) \<and>
   (get_synsets_for_word g word1 \<noteq> [] \<and> get_synsets_for_word g word2 \<noteq> [] \<and>
    (\<forall>s1 \<in> set (get_synsets_for_word g word1). \<forall>s2 \<in> set (get_synsets_for_word g word2).
       get_synset_pos s1 \<noteq> get_synset_pos s2) \<longrightarrow>
      get_max_similarity rank g m word1 word2 = Inr 0 \<and>
      get_best_pair rank g m word1 word2 = Inr None)"
proof (rule conjI; rule impI)
  assume "get_synsets_for_word g word1 = [] \<or> get_synsets_for_word g word2 = []"
  then have "calculate_word_similarity rank g m word1 word2 = Inr []"
    by (auto simp: calculate_word_similarity_def)
  then show "get_max_similarity rank g m word1 word2 = Inr 0 \<and>
      get_best_pair rank g m word1 word2 = Inr None"
    by (rule no_results_outcomes)
next
  assume a: "get_synsets_for_word g word1 \<noteq> [] \<and> get_synsets_for_word g word2 \<noteq> [] \<and>
    (\<forall>s1 \<in> set (get_synsets_for_word g word1). \<forall>s2 \<in> set (get_synsets_for_word g word2).
       get_synset_pos s1 \<noteq> get_synset_pos s2)"
  then have "score_pairs rank g m
      (List.product (get_synsets_for_word g word1) (get_synsets_for_word g word2)) = Inr []"
    by (intro score_pairs_none) auto
  with a have "calculate_word_similarity rank g m word1 word2 = Inr []"
    by (simp add: calculate_word_similarity_def)
  then show "get_max_similarity rank g m word1 word2 = Inr 0 \<and>
      get_best_pair rank g m word1 word2 = Inr None"
    by (rule no_results_outcomes)
qed

theorem pos_incompatible_like_unknown_word_witness:
  "get_synsets_for_word pos_example word_nor = [] \<and>
   get_max_similarity flat_rank pos_example WUP word_nor word_lac = Inr 0 \<and>
   get_best_pair flat_rank pos_example WUP word_nor word_lac = Inr None \<and>
   get_synsets_for_word pos_example word_lac = [lac] \<and>
   get_synsets_for_word pos_example word_inota = [inota] \<and>
   get_synset_pos lac \<noteq> get_synset_pos inota \<and>
   get_max_similarity flat_rank pos_example WUP word_lac word_inota = Inr 0 \<and>
   get_best_pair flat_rank pos_example WUP word_lac word_inota = Inr None"
  using pos_incompatible_like_unknown_word[of pos_example word_nor word_lac flat_rank WUP]
    pos_incompatible_like_unknown_word[of pos_example word_lac word_inota flat_rank WUP]
  by (simp add: pos_example_synsets pos_example_pos)

text \<open>
  What the branch for two different synsets does: both glosses are fetched, and unless
  one of them is empty their intersection is taken and its length returned.
\<close>

lemma lesk_distinct_synsets_calls:
  "a \<noteq> b \<Longrightarrow>
   fst (lesk_similarity_calls g a b) =
     (if get_extended_gloss g a = {} \<or> get_extended_gloss g b = {}
      then [Get_extended_gloss a, Get_extended_gloss b]
      else [Get_extended_gloss a, Get_extended_gloss b,
            Intersection (get_extended_gloss g a) (get_extended_gloss g b),
            Len (get_extended_gloss g a \<inter> get_extended_gloss g b)])"
  by (simp add: lesk_similarity_calls_def recorded_defs)

lemma pos_example_gloss:
  "get_extended_gloss pos_example ''lac-n'' =
     {str ''intindere'', str ''mare'', str ''apa'', str ''statatoare'', str ''lac''}"
  "card (get_extended_gloss pos_example ''lac-n'') = 5"
  by code_simp+

lemma pos_example_overlap_calls:
  "lesk_similarity_calls pos_example ''lac-n'' ''inota-v'' =
     ([Get_extended_gloss ''lac-n'', Get_extended_gloss ''inota-v'',
       Intersection
         {str ''intindere'', str ''mare'', str ''apa'', str ''statatoare'', str ''lac''}
         {str ''pluti'', str ''apa'', str ''facand'', str ''miscari'', str ''inota''},
       Len {str ''apa''}],
      Inr 1)"
  by code_simp

text \<open>
  Claim C8. For every synset \<open>s\<close>, the LESK score of the pair \<open>(s, s)\<close> is the
  number of tokens in the extended gloss of \<open>s\<close>, and it is not computed as an
  intersection of that set with itself: the method fetches the gloss of \<open>s\<close> once and
  takes the length of that very set, and makes no call of \<open>intersection\<close>.
\<close>

theorem lesk_same_synset_is_gloss_size:
  "lesk_similarity g s s = Inr (real (card (get_extended_gloss g s))) \<and>
   lesk_similarity_calls g s s =
     ([Get_extended_gloss s, Len (get_extended_gloss g s)],
      Inr (real (card (get_extended_gloss g s)))) \<and>
   (\<forall>tokens1 tokens2.
      Intersection tokens1 tokens2 \<notin> set (fst (lesk_similarity_calls g s s)))"
  by (simp add: lesk_similarity_def lesk_similarity_calls_def recorded_defs)

theorem lesk_same_synset_is_gloss_size_witness:
  "lesk_similarity pos_example ''lac-n'' ''lac-n'' = Inr 5 \<and>
   lesk_similarity_calls pos_example ''lac-n'' ''lac-n'' =
     ([Get_extended_gloss ''lac-n'',
       Len {str ''intindere'', str ''mare'', str ''apa'', str ''statatoare'', str ''lac''}],
      Inr 5)"
  using lesk_same_synset_is_gloss_size[of pos_example "''lac-n''"]
  by (simp add: pos_example_gloss)

section \<open>Example taxonomies\<close>

definition nouns :: "string list \<Rightarrow> synset list" where
  "nouns ids = map (\<lambda>i. \<lparr>syn_id = i, syn_pos = PyStr (str ''n''), syn_literals = [], syn_definition = []\<rparr>) ids"

text \<open>
  A taxonomy with two roots \<open>a\<close> and \<open>b\<close> and mutually inverse edges:
  \<open>a\<close> above \<open>x1\<close>, \<open>x1\<close> above \<open>n\<close> and \<open>y2\<close>, \<open>b\<close> above \<open>y1\<close> and
  \<open>y2\<close>, \<open>y1\<close> above \<open>n\<close>. The shortest path between \<open>a\<close> and \<open>b\<close> has three
  edges (through \<open>x1\<close> and \<open>y2\<close>).
\<close>

definition path_example :: rowordnet where
  "path_example =
     \<lparr>rwn_synsets = nouns [''a'', ''b'', ''x1'', ''y1'', ''y2'', ''n''],
      rwn_relations =
        [(''a'', [(''x1'', str ''hyponym'')]),
         (''b'', [(''y1'', str ''hyponym''), (''y2'', str ''hyponym'')]),
         (''x1'', [(''a'', str ''hypernym''), (''n'', str ''hyponym''), (''y2'', str ''hyponym'')]),
         (''y1'', [(''b'', str ''hypernym''), (''n'', str ''hyponym'')]),
         (''y2'', [(''x1'', str ''hypernym''), (''b'', str ''hypernym'')]),
         (''n'', [(''x1'', str ''hypernym''), (''y1'', str ''hypernym'')])]\<rparr>"


text \<open>
  A taxonomy with multiple inheritance: \<open>s1\<close> and \<open>s2\<close> lie directly below the root
  \<open>top\<close> and also below \<open>x\<close>, which is three hypernym hops from the root \<open>r\<close>.
\<close>

definition wup_example :: rowordnet where
  "wup_example =
     \<lparr>rwn_synsets = nouns [''s1'', ''s2'', ''x'', ''p'', ''q'', ''r'', ''top''],
      rwn_relations =
        [(''s1'', [(''top'', str ''hypernym''), (''x'', str ''hypernym'')]),
         (''s2'', [(''top'', str ''hypernym''), (''x'', str ''hypernym'')]),
         (''x'', [(''p'', str ''hypernym''), (''s1'', str ''hyponym''), (''s2'', str ''hyponym'')]),
         (''p'', [(''q'', str ''hypernym''), (''x'', str ''hyponym'')]),
         (''q'', [(''r'', str ''hypernym''), (''p'', str ''hyponym'')]),
         (''r'', [(''q'', str ''hyponym'')]),
         (''top'', [(''s1'', str ''hyponym''), (''s2'', str ''hyponym'')])]\<rparr>"


text \<open>A chain of nine hypernym edges from \<open>c0\<close> up to \<open>c9\<close>.\<close>

definition chain_example :: rowordnet where
  "chain_example =
     \<lparr>rwn_synsets = [],
      rwn_relations =
        [(''c0'', [(''c1'', str ''hypernym'')]),
         (''c1'', [(''c2'', str ''hypernym'')]),
         (''c2'', [(''c3'', str ''hypernym'')]),
         (''c3'', [(''c4'', str ''hypernym'')]),
         (''c4'', [(''c5'', str ''hypernym'')]),
         (''c5'', [(''c6'', str ''hypernym'')]),
         (''c6'', [(''c7'', str ''hypernym'')]),
         (''c7'', [(''c8'', str ''hypernym'')]),
         (''c8'', [(''c9'', str ''hypernym'')])]\<rparr>"


text \<open>A chain of twenty edges between two adjectives (maximum depth 10).\<close>

definition lch_example :: rowordnet where
  "lch_example =
     \<lparr>rwn_synsets =
        [\<lparr>syn_id = ''d0'', syn_pos = PyStr (str ''a''), syn_literals = [], syn_definition = []\<rparr>,
         \<lparr>syn_id = ''d20'', syn_pos = PyStr (str ''a''), syn_literals = [], syn_definition = []\<rparr>],
      rwn_relations =
        [(''d0'', [(''d1'', str ''hypernym'')]),
         (''d1'', [(''d2'', str ''hypernym''), (''d0'', str ''hyponym'')]),
         (''d2'', [(''d3'', str ''hypernym''), (''d1'', str ''hyponym'')]),
         (''d3'', [(''d4'', str ''hypernym''), (''d2'', str ''hyponym'')]),
         (''d4'', [(''d5'', str ''hypernym''), (''d3'', str ''hyponym'')]),
         (''d5'', [(''d6'', str ''hypernym''), (''d4'', str ''hyponym'')]),
         (''d6'', [(''d7'', str ''hypernym''), (''d5'', str ''hyponym'')]),
         (''d7'', [(''d8'', str ''hypernym''), (''d6'', str ''hyponym'')]),
         (''d8'', [(''d9'', str ''hypernym''), (''d7'', str ''hyponym'')]),
         (''d9'', [(''d10'', str ''hypernym''), (''d8'', str ''hyponym'')]),
         (''d10'', [(''d11'', str ''hypernym''), (''d9'', str ''hyponym'')]),
         (''d11'', [(''d12'', str ''hypernym''), (''d10'', str ''hyponym'')]),
         (''d12'', [(''d13'', str ''hypernym''), (''d11'', str ''hyponym'')]),
         (''d13'', [(''d14'', str ''hypernym''), (''d12'', str ''hyponym'')]),
         (''d14'', [(''d15'', str ''hypernym''), (''d13'', str ''hyponym'')]),
         (''d15'', [(''d16'', str ''hypernym''), (''d14'', str ''hyponym'')]),
         (''d16'', [(''d17'', str ''hypernym''), (''d15'', str ''hyponym'')]),
         (''d17'', [(''d18'', str ''hypernym''), (''d16'', str ''hyponym'')]),
         (''d18'', [(''d19'', str ''hypernym''), (''d17'', str ''hyponym'')]),
         (''d19'', [(''d20'', str ''hypernym''), (''d18'', str ''hyponym'')]),
         (''d20'', [(''d19'', str ''hyponym'')])]\<rparr>"

text \<open>
  Three synsets; \<open>A\<close> and \<open>B\<close> share the hypernym \<open>H\<close> and each reaches four nodes
  over hyponym edges (three of them without a synset of their own), as many as the
  total used for the probability, so their information content is 0.
\<close>

definition lin_example :: rowordnet where
  "lin_example =
     \<lparr>rwn_synsets = nouns [''A'', ''B'', ''H''],
      rwn_relations =
        [(''A'', [(''H'', str ''hypernym''), (''X'', str ''hyponym''), (''Y'', str ''hyponym''),
                 (''Z'', str ''hyponym'')]),
         (''B'', [(''H'', str ''hypernym''), (''X'', str ''hyponym''), (''Y'', str ''hyponym''),
                 (''Z'', str ''hyponym'')]),
         (''H'', [(''A'', str ''hyponym''), (''B'', str ''hyponym'')])]\<rparr>"



section \<open>Degenerate denominators\<close>

text \<open>
  Claim C9. For distinct synsets, LIN returns 0.0 when the information contents of the
  two synsets add up to 0, and LCH returns 0.0 when the path length plus one reaches
  twice the maximum depth plus one; neither raises.
\<close>

theorem degenerate_denominators_return_zero:
  "synset1_id \<noteq> synset2_id \<longrightarrow>
     (get_information_content g synset1_id = Inr ic_s1 \<and>
      get_information_content g synset2_id = Inr ic_s2 \<and> ic_s1 + ic_s2 = 0 \<longrightarrow>
        lin_similarity rank g synset1_id synset2_id = Inr 0) \<and>
     (find_shortest_path_length g synset1_id synset2_id + 1
        \<ge> 2 * int (lch_max_depth g synset1_id) + 1 \<longrightarrow>
        lch_similarity g synset1_id synset2_id = Inr 0)"
proof (intro impI conjI)
  assume ne: "synset1_id \<noteq> synset2_id"
    and ic: "get_information_content g synset1_id = Inr ic_s1 \<and>
      get_information_content g synset2_id = Inr ic_s2 \<and> ic_s1 + ic_s2 = 0"
  show "lin_similarity rank g synset1_id synset2_id = Inr 0"
  proof (cases "find_lcs rank g synset1_id synset2_id")
    case None
    with ne show ?thesis by (simp add: lin_similarity_def)
  next
    case (Some lcs_id)
    obtain ic_lcs where "get_information_content g lcs_id = Inr ic_lcs"
      by (simp add: get_information_content_value)
    with ne ic Some show ?thesis
      by (simp add: lin_similarity_def py_bind_def Let_def)
  qed
next
  assume ne: "synset1_id \<noteq> synset2_id"
    and far: "find_shortest_path_length g synset1_id synset2_id + 1
        \<ge> 2 * int (lch_max_depth g synset1_id) + 1"
  then show "lch_similarity g synset1_id synset2_id = Inr 0"
    by (simp add: lch_similarity_def Let_def)
qed

lemma lin_example_ic:
  "get_information_content lin_example ''A'' = Inr 0"
  "get_information_content lin_example ''B'' = Inr 0"
proof -
  have "count_descendants lin_example ''A'' = 4" "count_descendants lin_example ''B'' = 4"
    "synset_cache_len lin_example = 3"
    by code_simp+
  then show "get_information_content lin_example ''A'' = Inr 0"
    "get_information_content lin_example ''B'' = Inr 0"
    by (simp_all add: get_information_content_def py_truediv_def py_log_def)
qed

lemma lch_example_far:
  "find_shortest_path_length lch_example ''d0'' ''d20'' = 20"
  "lch_max_depth lch_example ''d0'' = 10"
  by code_simp+

theorem degenerate_denominators_return_zero_witness:
  "''A'' \<noteq> ''B'' \<and>
   get_information_content lin_example ''A'' = Inr 0 \<and>
   get_information_content lin_example ''B'' = Inr 0 \<and> (0::real) + 0 = 0 \<and>
   find_lcs flat_rank lin_example ''A'' ''B'' = Some ''H'' \<and>
   lin_similarity flat_rank lin_example ''A'' ''B'' = Inr 0 \<and>
   ''d0'' \<noteq> ''d20'' \<and>
   find_shortest_path_length lch_example ''d0'' ''d20'' + 1
     \<ge> 2 * int (lch_max_depth lch_example ''d0'') + 1 \<and>
   lch_similarity lch_example ''d0'' ''d20'' = Inr 0"
proof -
  have lcs: "find_lcs flat_rank lin_example ''A'' ''B'' = Some ''H''"
    by code_simp
  from degenerate_denominators_return_zero[of "''A''" "''B''" lin_example 0 0 flat_rank]
    degenerate_denominators_return_zero[of "''d0''" "''d20''" lch_example 0 0 flat_rank]
    lin_example_ic lch_example_far lcs
  show ?thesis by simp
qed

section \<open>Where the code departs from its documentation\<close>

text \<open>
  Claim C2 fails on the code. The search skips a state only when it is popped with a
  path longer than \<open>MAX_PATH_LENGTH\<close>, and a state popped at length 8 still reports the
  target among its neighbours with length 9: on the chain of nine edges the retained
  result is (9, 0) and the score 7, although no path to the target stays within the
  bound of 8.
\<close>

theorem hso_result_exceeds_max_path_length:
  "find_path_with_directions chain_example ''c0'' ''c9'' = Some (9, 0) \<and>
   MAX_PATH_LENGTH < fst (the (find_path_with_directions chain_example ''c0'' ''c9'')) \<and>
   hso_similarity chain_example ''c0'' ''c9'' = Inr 7"
proof -
  have "find_path_with_directions chain_example ''c0'' ''c9'' = Some (9, 0)"
    by code_simp
  then show ?thesis
    by (simp add: hso_similarity_def hso_score_def CONST_C_def CONST_K_def MAX_PATH_LENGTH_def)
qed

text \<open>
  Claim C6 fails on the code. \<open>find_shortest_path_length\<close> of a synset and itself is 0,
  but the two-sided search returns at the first contact of the two visited maps, which
  need not lie on a shortest path: from \<open>a\<close> to \<open>b\<close> it returns 3 and from \<open>b\<close> to
  \<open>a\<close> it returns 4.
\<close>

theorem shortest_path_length_asymmetric:
  "find_shortest_path_length path_example ''a'' ''b'' = 3 \<and>
   find_shortest_path_length path_example ''b'' ''a'' = 4"
  by code_simp

text \<open>
  Claim C4 fails on the code for PATH, through the same search: the score of
  (\<open>a\<close>, \<open>b\<close>) is 1/4 and the score of (\<open>b\<close>, \<open>a\<close>) is 1/5.
\<close>

theorem path_similarity_asymmetric:
  "path_similarity path_example ''a'' ''b'' = Inr (1 / 4) \<and>
   path_similarity path_example ''b'' ''a'' = Inr (1 / 5)"
proof -
  have "find_shortest_path_length path_example ''a'' ''b'' = 3"
    "find_shortest_path_length path_example ''b'' ''a'' = 4"
    by code_simp+
  then show ?thesis
    by (simp add: path_similarity_def py_truediv_def)
qed

text \<open>
  The text \<open>caine animal\<close> with a-circumflex (U+00E2) as the second letter of the first
  word.
\<close>

definition text_caine :: py_str where
  "text_caine = [99, 226, 105, 110, 101, 32, 97, 110, 105, 109, 97, 108]"

text \<open>
  Claim C5 fails on the code. The character class covers U+0100 to U+017F, so of the
  Romanian diacritics only a-breve is in it; a-circumflex, i-circumflex and the
  comma-below letters are not. Such a letter is still a word character, so no word
  boundary separates it from its neighbours and the whole word is lost: the only token
  of the text is \<open>animal\<close>.
\<close>

theorem tokenize_drops_word_with_a_circumflex:
  "tokenize text_caine = {str ''animal''} \<and> [99, 226, 105, 110, 101] \<notin> tokenize text_caine"
  by code_simp

text \<open>
  Claim C3 fails on the code for WUP. Depth is the distance to the nearest root, and the
  least common subsumer is the common ancestor of greatest depth, which can be deeper
  than both synsets: here the subsumer \<open>x\<close> has depth 4, both synsets have depth 2, and
  the score is 2.
\<close>

theorem wup_exceeds_one:
  "wup_similarity flat_rank wup_example ''s1'' ''s2'' = Inr 2"
proof -
  have "find_lcs flat_rank wup_example ''s1'' ''s2'' = Some ''x''"
    "get_depth wup_example ''x'' = 4" "get_depth wup_example ''s1'' = 2"
    "get_depth wup_example ''s2'' = 2"
    by code_simp+
  then show ?thesis
    by (simp add: wup_similarity_def py_truediv_def)
qed

section \<open>What holds of the measures\<close>

text \<open>
  The depth of the least common subsumer is the greatest depth among the common
  ancestors, whatever the enumeration order, and \<open>find_lcs\<close> fails exactly when there
  is no common ancestor. Hence WUP is symmetric under every pair of rankings; RES, JCN
  and LIN are symmetric whenever \<open>find_lcs\<close> picks the same subsumer both ways. PATH
  stays within [0, 1], and PATH, WUP and LIN return 1 on a synset and itself.
\<close>

lemma deepest_step_pair:
  "deepest_step g x (d0, m0) =
     (if int (get_depth g x) > m0 then (Some x, int (get_depth g x)) else (d0, m0))"
  by (simp add: deepest_step_def Let_def)

lemma deepest_fold:
  assumes "fold (deepest_step g) xs (d0, m0) = (d, m)"
  shows "m = Max (insert m0 ((\<lambda>x. int (get_depth g x)) ` set xs)) \<and>
         (m0 < m \<longrightarrow> (\<exists>x \<in> set xs. d = Some x \<and> int (get_depth g x) = m)) \<and>
         (m = m0 \<longrightarrow> d = d0)"
  using assms
proof (induction xs arbitrary: d0 m0)
  case Nil
  then show ?case by simp
next
  case (Cons x xs)
  let ?dx = "int (get_depth g x)"
  let ?D = "(\<lambda>x. int (get_depth g x)) ` set xs"
  have fin: "finite ?D" by simp
  show ?case
  proof (cases "?dx > m0")
    case True
    with Cons.prems have "fold (deepest_step g) xs (Some x, ?dx) = (d, m)"
      by (simp add: deepest_step_pair)
    from Cons.IH[OF this] have ih: "m = Max (insert ?dx ?D)"
      "?dx < m \<longrightarrow> (\<exists>y \<in> set xs. d = Some y \<and> int (get_depth g y) = m)"
      "m = ?dx \<longrightarrow> d = Some x"
      by blast+
    have ge: "?dx \<le> m" using ih(1) fin by simp
    have "Max (insert m0 (insert ?dx ?D)) = max m0 (Max (insert ?dx ?D))"
      using fin by (subst Max_insert) simp_all
    also have "\<dots> = max m0 m" by (simp only: ih(1)[symmetric])
    also have "\<dots> = m" using True ge by simp
    finally have a: "m = Max (insert m0 ((\<lambda>x. int (get_depth g x)) ` set (x # xs)))"
      by simp
    have b: "\<exists>y \<in> set (x # xs). d = Some y \<and> int (get_depth g y) = m"
      using ih(2,3) ge by (cases "?dx < m") auto
    have c: "m \<noteq> m0" using True ge by simp
    from a b c show ?thesis by blast
  next
    case False
    with Cons.prems have "fold (deepest_step g) xs (d0, m0) = (d, m)"
      by (simp add: deepest_step_pair)
    from Cons.IH[OF this] have ih: "m = Max (insert m0 ?D)"
      "m0 < m \<longrightarrow> (\<exists>y \<in> set xs. d = Some y \<and> int (get_depth g y) = m)"
      "m = m0 \<longrightarrow> d = d0"
      by blast+
    have "Max (insert ?dx (insert m0 ?D)) = max ?dx (Max (insert m0 ?D))"
      using fin by (subst Max_insert) simp_all
    also have "\<dots> = max ?dx m" by (simp only: ih(1)[symmetric])
    also have "\<dots> = m"
    proof -
      have "m0 \<le> Max (insert m0 ?D)" using fin by simp
      then have "m0 \<le> m" by (simp only: ih(1)[symmetric])
      with False show ?thesis by simp
    qed
    finally have a: "m = Max (insert m0 ((\<lambda>x. int (get_depth g x)) ` set (x # xs)))"
      by (simp add: insert_commute)
    have b: "m0 < m \<longrightarrow> (\<exists>y \<in> set (x # xs). d = Some y \<and> int (get_depth g y) = m)"
      using ih(2) by auto
    from a b ih(3) show ?thesis by blast
  qed
qed

definition common_ancestors :: "rowordnet \<Rightarrow> string \<Rightarrow> string \<Rightarrow> string set" where
  "common_ancestors g a b =
     set (py_set_add a (get_all_ancestors g a)) \<inter> set (py_set_add b (get_all_ancestors g b))"

lemma set_py_intersection_iter: "set (py_intersection_iter rank xs ys) = set xs \<inter> set ys"
  by (auto simp: py_intersection_iter_def)

lemma find_lcs_none:
  "a \<noteq> b \<Longrightarrow> find_lcs rank g a b = None \<longleftrightarrow> common_ancestors g a b = {}"
proof -
  assume ne: "a \<noteq> b"
  let ?common = "py_intersection_iter rank (py_set_add a (get_all_ancestors g a))
      (py_set_add b (get_all_ancestors g b))"
  have set_common: "set ?common = common_ancestors g a b"
    by (simp add: set_py_intersection_iter common_ancestors_def)
  show ?thesis
  proof (cases "?common = []")
    case True
    with ne set_common show ?thesis
      by (auto simp: find_lcs_def Let_def)
  next
    case False
    obtain d m where dm: "fold (deepest_step g) ?common (None, - 1) = (d, m)"
      by (cases "fold (deepest_step g) ?common (None, - 1)")
    from False obtain x where x: "x \<in> set ?common" by (cases ?common) auto
    from deepest_fold[OF dm] have m: "m = Max (insert (- 1) ((\<lambda>x. int (get_depth g x)) ` set ?common))"
      and some: "- 1 < m \<longrightarrow> (\<exists>x \<in> set ?common. d = Some x \<and> int (get_depth g x) = m)"
      by blast+
    have "int (get_depth g x) \<le> m"
      unfolding m using x by (intro Max_ge) auto
    then have "- 1 < m" by simp
    with some have "d \<noteq> None" by auto
    moreover have "find_lcs rank g a b = d"
      using ne False dm by (simp add: find_lcs_def Let_def)
    moreover have "common_ancestors g a b \<noteq> {}"
      using x set_common by auto
    ultimately show ?thesis by simp
  qed
qed

lemma find_lcs_depth:
  assumes "a \<noteq> b" "find_lcs rank g a b = Some l"
  shows "int (get_depth g l) = Max ((\<lambda>x. int (get_depth g x)) ` common_ancestors g a b)"
proof -
  let ?common = "py_intersection_iter rank (py_set_add a (get_all_ancestors g a))
      (py_set_add b (get_all_ancestors g b))"
  let ?D = "(\<lambda>x. int (get_depth g x)) ` set ?common"
  have set_common: "set ?common = common_ancestors g a b"
    by (simp add: set_py_intersection_iter common_ancestors_def)
  from assms find_lcs_none[OF assms(1), of rank g] have "common_ancestors g a b \<noteq> {}"
    by simp
  with set_common have ne: "?common \<noteq> []" by auto
  obtain d m where dm: "fold (deepest_step g) ?common (None, - 1) = (d, m)"
    by (cases "fold (deepest_step g) ?common (None, - 1)")
  with assms ne have d: "d = Some l"
    by (simp add: find_lcs_def Let_def)
  from ne obtain x where x: "x \<in> set ?common" by (cases ?common) auto
  from deepest_fold[OF dm] have m: "m = Max (insert (- 1) ?D)"
    and some: "- 1 < m \<longrightarrow> (\<exists>x \<in> set ?common. d = Some x \<and> int (get_depth g x) = m)"
    by blast+
  have Dne: "?D \<noteq> {}" using x by auto
  have "int (get_depth g x) \<le> m"
    unfolding m using x by (intro Max_ge) auto
  then have pos: "- 1 < m" by simp
  with some d have "int (get_depth g l) = m" by auto
  moreover have "Max (insert (- 1) ?D) = max (- 1) (Max ?D)"
    using Dne by (subst Max_insert) simp_all
  moreover have "0 \<le> Max ?D"
    using x Dne by (subst Max_ge_iff) auto
  ultimately show ?thesis
    using m set_common by simp
qed

lemma common_ancestors_commute: "common_ancestors g a b = common_ancestors g b a"
  by (auto simp: common_ancestors_def)

lemma wup_similarity_symmetric:
  "wup_similarity rank g a b = wup_similarity rank' g b a"
proof (cases "a = b")
  case True
  then show ?thesis by (simp add: wup_similarity_def)
next
  case False
  then have ne: "a \<noteq> b" "b \<noteq> a" by auto
  show ?thesis
  proof (cases "common_ancestors g a b = {}")
    case True
    with find_lcs_none[OF ne(1), of rank g] find_lcs_none[OF ne(2), of rank' g]
    show ?thesis
      using ne by (simp add: wup_similarity_def common_ancestors_commute)
  next
    case nonempty: False
    with find_lcs_none[OF ne(1), of rank g] find_lcs_none[OF ne(2), of rank' g]
    obtain l l' where l: "find_lcs rank g a b = Some l" "find_lcs rank' g b a = Some l'"
      by (auto simp: common_ancestors_commute)
    from find_lcs_depth[OF ne(1) l(1)] find_lcs_depth[OF ne(2) l(2)]
    have "get_depth g l = get_depth g l'"
      by (simp add: common_ancestors_commute)
    with ne l show ?thesis
      by (simp add: wup_similarity_def Let_def add.commute)
  qed
qed

lemma lcs_measures_symmetric:
  assumes "find_lcs rank g a b = find_lcs rank g b a"
  shows "res_similarity rank g a b = res_similarity rank g b a"
    and "jcn_similarity rank g a b = jcn_similarity rank g b a"
    and "lin_similarity rank g a b = lin_similarity rank g b a"
proof -
  show "res_similarity rank g a b = res_similarity rank g b a"
    using assms by (auto simp: res_similarity_def)
  show "jcn_similarity rank g a b = jcn_similarity rank g b a"
    using assms
    by (auto simp: jcn_similarity_def get_information_content_value py_bind_def Let_def
        add.commute split: option.splits)
  show "lin_similarity rank g a b = lin_similarity rank g b a"
    using assms
    by (auto simp: lin_similarity_def get_information_content_value py_bind_def Let_def
        add.commute split: option.splits)
qed

lemma same_synset_scores:
  "path_similarity g s s = Inr 1" "wup_similarity rank g s s = Inr 1"
  "lin_similarity rank g s s = Inr 1"
  by (simp_all add: path_similarity_def wup_similarity_def lin_similarity_def)

lemma path_similarity_range:
  assumes "path_similarity g a b = Inr r"
  shows "0 \<le> r \<and> r \<le> 1"
proof (cases "a = b \<or> find_shortest_path_length g a b \<le> 0")
  case True
  with assms show ?thesis
    by (auto simp: path_similarity_def Let_def split: if_splits)
next
  case False
  then have "0 < find_shortest_path_length g a b" by simp
  then have "1 \<le> real_of_int (find_shortest_path_length g a b + 1)" by simp
  moreover from assms False have "r = 1 / real_of_int (find_shortest_path_length g a b + 1)"
    by (auto simp: path_similarity_def py_truediv_def Let_def split: if_splits)
  ultimately show ?thesis by simp
qed

text \<open>
  The result of the HSO search exceeds neither bound by more than one, and the HSO score
  lies in [0, 16].
\<close>

definition within_slack :: "nat \<times> nat \<Rightarrow> bool" where
  "within_slack result \<longleftrightarrow>
     fst result \<le> MAX_PATH_LENGTH + 1 \<and> snd result \<le> MAX_DIRECTION_CHANGES + 1"

lemma hso_scan_best:
  assumes "pl \<le> MAX_PATH_LENGTH" "dc \<le> MAX_DIRECTION_CHANGES"
    and "\<And>r. b = Some r \<Longrightarrow> within_slack r"
    and "fst (hso_scan t dir pl dc ld vis ns (b, q)) = Some r"
  shows "within_slack r"
  using assms(3,4)
proof (induction ns arbitrary: b q)
  case Nil
  then show ?case by simp
next
  case (Cons n ns)
  let ?new = "dc + (if ld = Some (opposite dir) then 1 else 0)"
  show ?case
  proof (cases "n = t")
    case True
    let ?b' = "if b = None \<or> hso_score (pl + 1, ?new) > hso_score (the b) then Some (pl + 1, ?new) else b"
    from True Cons.prems(2) have run: "fst (hso_scan t dir pl dc ld vis ns (?b', q)) = Some r"
      by (simp only: hso_scan.simps Let_def simp_thms if_True if_False)
    have "within_slack r'" if "?b' = Some r'" for r'
    proof (cases "b = None \<or> hso_score (pl + 1, ?new) > hso_score (the b)")
      case True
      then have "?b' = Some (pl + 1, ?new)" by (simp only: if_True)
      with that have "r' = (pl + 1, ?new)" by (simp only: option.inject)
      with assms(1,2) show ?thesis by (simp add: within_slack_def)
    next
      case False
      then have "?b' = b" by (simp only: if_False)
      with that have "b = Some r'" by (simp only:)
      then show ?thesis by (rule Cons.prems(1))
    qed
    from Cons.IH[OF this run] show ?thesis .
  next
    case False
    show ?thesis
    proof (cases "n \<in> vis")
      case True
      with False Cons.prems(2) have "fst (hso_scan t dir pl dc ld vis ns (b, q)) = Some r"
        by (simp only: hso_scan.simps Let_def simp_thms if_True if_False)
      from Cons.IH[OF Cons.prems(1) this] show ?thesis .
    next
      case unvisited: False
      with False Cons.prems(2) have
        "fst (hso_scan t dir pl dc ld vis ns
           (b, q @ [(n, pl + 1, ?new, Some dir, insert n vis)])) = Some r"
        by (simp only: hso_scan.simps Let_def simp_thms if_True if_False)
      from Cons.IH[OF Cons.prems(1) this] show ?thesis .
    qed
  qed
qed

lemma hso_loop_bound:
  assumes "\<And>r. best = Some r \<Longrightarrow> within_slack r" "hso_loop g t q best = Some r"
  shows "within_slack r"
  using assms
proof (induction g t q best rule: hso_loop.induct)
  case (1 g synset2_id best_result)
  then show ?case by simp
next
  case (2 g synset2_id current_id path_len dir_changes last_dir visited queue best_result)
  show ?case
  proof (cases "path_len > MAX_PATH_LENGTH")
    case True
    with "2.prems"(2) have "hso_loop g synset2_id queue best_result = Some r" by simp
    from "2.IH"(1)[OF True "2.prems"(1) this] show ?thesis .
  next
    case short: False
    show ?thesis
    proof (cases "dir_changes > MAX_DIRECTION_CHANGES")
      case True
      with short "2.prems"(2) have "hso_loop g synset2_id queue best_result = Some r" by simp
      from "2.IH"(2)[OF short True "2.prems"(1) this] show ?thesis .
    next
      case few: False
      obtain best1 queue1 where s1:
        "hso_scan synset2_id Up path_len dir_changes last_dir visited
           (get_hypernyms g current_id) (best_result, queue) = (best1, queue1)"
        by (cases "hso_scan synset2_id Up path_len dir_changes last_dir visited
           (get_hypernyms g current_id) (best_result, queue)")
      obtain best2 queue2 where s2:
        "hso_scan synset2_id Down path_len dir_changes last_dir visited
           (get_hyponyms g current_id) (best1, queue1) = (best2, queue2)"
        by (cases "hso_scan synset2_id Down path_len dir_changes last_dir visited
           (get_hyponyms g current_id) (best1, queue1)")
      from short few have le: "path_len \<le> MAX_PATH_LENGTH" "dir_changes \<le> MAX_DIRECTION_CHANGES"
        by simp_all
      have b1: "within_slack r'" if "best1 = Some r'" for r'
        using hso_scan_best[OF le "2.prems"(1), where t = synset2_id and dir = Up and ld = last_dir
            and vis = visited and ns = "get_hypernyms g current_id" and q = queue and r = r']
          s1 that by simp
      have b2: "within_slack r'" if "best2 = Some r'" for r'
        using hso_scan_best[OF le b1, where t = synset2_id and dir = Down and ld = last_dir
            and vis = visited and ns = "get_hyponyms g current_id" and q = queue1 and r = r']
          s2 that by simp
      from short few s1 s2 "2.prems"(2) have "hso_loop g synset2_id queue2 best2 = Some r"
        by simp
      from "2.IH"(3)[OF short few s1[symmetric] s2[symmetric] b2 this]
      show ?thesis .
    qed
  qed
qed

lemma find_path_with_directions_bound:
  "find_path_with_directions g a b = Some (path_len, dir_changes) \<Longrightarrow>
   path_len \<le> MAX_PATH_LENGTH + 1 \<and> dir_changes \<le> MAX_DIRECTION_CHANGES + 1"
proof (cases "a = b")
  case True
  assume "find_path_with_directions g a b = Some (path_len, dir_changes)"
  with True show ?thesis by (simp add: find_path_with_directions_def)
next
  case False
  assume "find_path_with_directions g a b = Some (path_len, dir_changes)"
  with False have "hso_loop g b [(a, 0, 0, None, {a})] None = Some (path_len, dir_changes)"
    by (simp add: find_path_with_directions_def)
  from hso_loop_bound[OF _ this] show ?thesis
    by (simp add: within_slack_def)
qed

lemma hso_similarity_range:
  "hso_similarity g a b = Inr r \<Longrightarrow> 0 \<le> r \<and> r \<le> 16"
  by (auto simp: hso_similarity_def hso_score_def CONST_C_def CONST_K_def
      split: if_splits option.splits prod.splits)

end
